theory Spec2Isabelle
  imports Main "HOL-Library.Word" "HOL-Library.AList"
begin

section \<open>Errors and results\<close>

text \<open>
  The Go code reports failures as \<^verbatim>\<open>error\<close> values built from message strings, and a
  few operations can panic at run time (slice bounds, \<^verbatim>\<open>make\<close> with a negative length).
  Each distinct failure of the source is one constructor; \<open>Error\<close> gives the message the
  source builds (\<^verbatim>\<open>err.Error()\<close>). A result is \<open>error + 'a\<close>, \<open>Inl\<close> the failure.
\<close>

datatype error =
    NotFound
  | IOError string
  | InvalidRange
  | NotRunning
  | NoEngine string
  | StartFailed string string
  | BadParams string
  | UnknownLanguage string
  | Panic

fun Error :: "error \<Rightarrow> string" where
  "Error NotFound = ''file does not exist''"
| "Error (IOError msg) = msg"
| "Error InvalidRange = ''invalid delta positions''"
| "Error NotRunning = ''LSP server not running''"
| "Error (NoEngine language) = ''no LSP server configured for language: '' @ language"
| "Error (StartFailed language msg) = ''failed to start '' @ language @ '' LSP: '' @ msg"
| "Error (BadParams msg) = msg"
| "Error (UnknownLanguage filePath) = ''could not detect language for file: '' @ filePath"
| "Error Panic = ''runtime error''"

section \<open>Document mirror\<close>

text \<open>
  Go strings are byte sequences: \<open>string\<close> (a list of 8-bit characters) with \<open>length\<close>
  for \<^verbatim>\<open>len\<close>. The slice expressions \<^verbatim>\<open>s[:hi]\<close> and \<^verbatim>\<open>s[lo:]\<close> panic when the index is
  outside \<open>0..len(s)\<close>. Positions are Go \<^verbatim>\<open>int\<close>s; \<open>ApplyDelta\<close> only compares them, so
  they are modelled as mathematical integers (every machine value is one).
\<close>

definition slice_to :: "string \<Rightarrow> int \<Rightarrow> error + string" where
  "slice_to s hi = (if 0 \<le> hi \<and> hi \<le> int (length s) then Inr (take (nat hi) s) else Inl Panic)"

definition slice_from :: "string \<Rightarrow> int \<Rightarrow> error + string" where
  "slice_from s lo = (if 0 \<le> lo \<and> lo \<le> int (length s) then Inr (drop (nat lo) s) else Inl Panic)"

definition ApplyDelta :: "string \<Rightarrow> int \<Rightarrow> int \<Rightarrow> string \<Rightarrow> error + string" where
  "ApplyDelta content fromPos toPos ins =
     (if fromPos < 0 \<or> toPos > int (length content) \<or> fromPos > toPos then Inl InvalidRange
      else (case slice_to content fromPos of
              Inl e \<Rightarrow> Inl e
            | Inr before \<Rightarrow>
                (case slice_from content toPos of
                   Inl e \<Rightarrow> Inl e
                 | Inr after \<Rightarrow> Inr (before @ ins @ after))))"

section \<open>Frame codec\<close>

text \<open>
  The reader of \<^verbatim>\<open>readMessages\<close> consumes the child's standard output through a
  \<^verbatim>\<open>bufio.Reader\<close>. The output still to be read is a finite byte string followed by the
  end of the stream. \<open>ReadString delim\<close> returns the bytes up to and including the first
  \<open>delim\<close> and the rest of the stream; when the stream ends first it returns an error
  (\<open>None\<close>; the source ignores the partial data).
\<close>

abbreviation LF :: char where "LF \<equiv> CHR 0x0A"

abbreviation CRLF :: string where "CRLF \<equiv> [CHR 0x0D, CHR 0x0A]"

fun ReadString :: "char \<Rightarrow> string \<Rightarrow> (string \<times> string) option" where
  "ReadString delim [] = None"
| "ReadString delim (c # cs) =
     (if c = delim then Some ([c], cs)
      else (case ReadString delim cs of
              None \<Rightarrow> None
            | Some (line, rest) \<Rightarrow> Some (c # line, rest)))"

lemma ReadString_shorter: "ReadString delim inp = Some (line, rest) \<Longrightarrow> length rest < length inp"
  by (induction inp arbitrary: line) (auto split: if_splits option.splits)

text \<open>
  \<^verbatim>\<open>fmt.Sscanf(line, "Content-Length: %d", &contentLength)\<close> is a call into Go's library.
  Its outcome on a line is a parameter of the model: \<open>Some n\<close> when it scans one integer
  and stores \<open>n\<close>, \<open>None\<close> when it fails and stores nothing. Whatever it returns, the
  source goes on to the next header line.
\<close>

type_synonym scanner = "string \<Rightarrow> int option"

text \<open>The header loop (\<^verbatim>\<open>for { line, err := reader.ReadString('\n') ... }\<close>).\<close>

function readHeaders :: "scanner \<Rightarrow> int \<Rightarrow> string \<Rightarrow> (int \<times> string) option" where
  "readHeaders scan contentLength inp =
     (case ReadString LF inp of
        None \<Rightarrow> None
      | Some (line, rest) \<Rightarrow>
          if line = CRLF then Some (contentLength, rest)
          else readHeaders scan (case scan line of Some n \<Rightarrow> n | None \<Rightarrow> contentLength) rest)"
  by pat_completeness auto
termination
  by (relation "measure (\<lambda>(scan, contentLength, inp). length inp)")
     (auto dest: ReadString_shorter)

declare readHeaders.simps [simp del]

text \<open>
  \<^verbatim>\<open>io.ReadFull\<close> into a buffer of \<open>n\<close> bytes: an error when the stream holds fewer
  (and no error for \<open>n = 0\<close>, even at the end of the stream).
\<close>

definition ReadFull :: "nat \<Rightarrow> string \<Rightarrow> (string \<times> string) option" where
  "ReadFull n inp = (if n \<le> length inp then Some (take n inp, drop n inp) else None)"

text \<open>
  One frame: the header loop starting from \<^verbatim>\<open>var contentLength int\<close> (zero), then
  \<^verbatim>\<open>make([]byte, contentLength)\<close>, then \<^verbatim>\<open>io.ReadFull\<close>. \<^verbatim>\<open>make\<close> panics on a negative
  length and on a length above what can be allocated; that limit, a constant of the Go
  runtime and the machine, is the parameter \<open>maxAlloc\<close>. The panic is not recovered, so it
  ends the process. \<open>ReadError\<close> is the branch where \<^verbatim>\<open>readMessages\<close> returns.
\<close>

datatype read_result = ReadError | ReadPanic | Frame string string

definition readFrame :: "scanner \<Rightarrow> int \<Rightarrow> string \<Rightarrow> read_result" where
  "readFrame scan maxAlloc inp =
     (case readHeaders scan 0 inp of
        None \<Rightarrow> ReadError
      | Some (contentLength, rest) \<Rightarrow>
          if contentLength < 0 \<or> contentLength > maxAlloc then ReadPanic
          else (case ReadFull (nat contentLength) rest of
                  None \<Rightarrow> ReadError
                | Some (content, rest') \<Rightarrow> Frame content rest'))"

lemma readHeaders_shorter:
  "readHeaders scan contentLength inp = Some (n, rest) \<Longrightarrow> length rest < length inp"
proof (induction scan contentLength inp rule: readHeaders.induct)
  case (1 scan contentLength inp)
  from "1.prems" obtain line r where rs: "ReadString LF inp = Some (line, r)"
    by (subst (asm) readHeaders.simps) (auto split: option.splits)
  then have short: "length r < length inp"
    by (rule ReadString_shorter)
  show ?case
  proof (cases "line = CRLF")
    case True
    with "1.prems" rs short show ?thesis
      by (subst (asm) readHeaders.simps) simp
  next
    case False
    with "1.prems" rs
    have "readHeaders scan (case scan line of Some n \<Rightarrow> n | None \<Rightarrow> contentLength) r = Some (n, rest)"
      by (subst (asm) readHeaders.simps) simp
    with "1.IH" rs False have "length rest < length r"
      by simp
    with short show ?thesis by simp
  qed
qed

lemma readFrame_shorter:
  "readFrame scan maxAlloc inp = Frame content rest \<Longrightarrow> length rest < length inp"
  by (auto simp: readFrame_def ReadFull_def split: option.splits if_splits
           dest!: readHeaders_shorter)

section \<open>JSON values\<close>

text \<open>
  The values a Go \<^verbatim>\<open>interface{}\<close> holds after \<^verbatim>\<open>json.Unmarshal\<close>, and the maps and
  slices the gateway builds itself: \<open>JNull\<close> is \<^verbatim>\<open>nil\<close>, an object is a
  \<^verbatim>\<open>map[string]interface{}\<close>, given by its entries and read with \<open>map_of\<close>.
\<close>

datatype json =
    JNull
  | JBool bool
  | JNum int
  | JStr string
  | JArr "json list"
  | JObj "(string \<times> json) list"

section \<open>RPC engine\<close>

text \<open>
  A Go channel of \<^verbatim>\<open>json.RawMessage\<close>: the buffered messages, oldest first, and whether
  it has been closed. A receive takes the oldest message; on an empty channel it blocks
  while the channel is open and yields the zero value once it is closed.
\<close>

record chan =
  buf :: "string list"
  closed :: bool

definition make_chan :: chan where
  "make_chan = \<lparr>buf = [], closed = False\<rparr>"

datatype 'a recv = Received 'a chan | ChanClosed | WouldBlock

definition chan_recv :: "chan \<Rightarrow> string recv" where
  "chan_recv ch =
     (case buf ch of
        x # xs \<Rightarrow> Received x (ch\<lparr>buf := xs\<rparr>)
      | [] \<Rightarrow> if closed ch then ChanClosed else WouldBlock)"

text \<open>
  The struct \<^verbatim>\<open>LSPManager\<close>. \<open>messageID\<close> is a Go \<^verbatim>\<open>int\<close>, 64 bits wide on the usual
  targets, whose increment wraps. The response channels are objects shared between the
  pending table and the awaiting callers, so the table maps an id to a channel
  reference and \<open>chans\<close> holds the channels by reference, \<open>nextChan\<close> being the next
  unused reference. \<open>cmd\<close> is the started child process, if any, and \<open>stdin\<close> the frames
  written to its standard input so far, each as the JSON object that was marshalled.
\<close>

record LSPManager =
  cmd :: "nat option"
  stdin :: "json list"
  running :: bool
  compileCommands :: string
  messageID :: "64 word"
  responseHandlers :: "64 word \<rightharpoonup> nat"
  chans :: "nat \<Rightarrow> chan"
  nextChan :: nat
  notificationChan :: chan

definition NewLSPManager :: LSPManager where
  "NewLSPManager =
     \<lparr>cmd = None, stdin = [], running = False, compileCommands = [], messageID = 0,
      responseHandlers = Map.empty, chans = (\<lambda>_. make_chan), nextChan = 0,
      notificationChan = make_chan\<rparr>"

text \<open>
  \<^verbatim>\<open>shutdown\<close> kills and reaps the child when the engine is running. The live child
  processes of the machine are a map from process id to command line.
\<close>

type_synonym procs = "nat \<rightharpoonup> string list"

definition shutdown :: "LSPManager \<Rightarrow> procs \<Rightarrow> LSPManager \<times> procs" where
  "shutdown lsp ps =
     (lsp\<lparr>running := False\<rparr>,
      (case cmd lsp of
         Some pid \<Rightarrow> if running lsp then ps(pid := None) else ps
       | None \<Rightarrow> ps))"

text \<open>
  \<^verbatim>\<open>Start\<close>: \<open>spawned\<close> is what the operating system answers to the pipe and start
  calls, an error or the id of the new process.
\<close>

definition Start :: "error + nat \<Rightarrow> string \<Rightarrow> string \<Rightarrow> LSPManager \<Rightarrow> procs
    \<Rightarrow> error option \<times> LSPManager \<times> procs" where
  "Start spawned clangdPath compileCommandsDir lsp ps =
     (let (lsp1, ps1) = (if running lsp then shutdown lsp ps else (lsp, ps));
          args = (if compileCommandsDir \<noteq> [] then [''--compile-commands-dir='' @ compileCommandsDir]
                  else [])
      in case spawned of
           Inl err \<Rightarrow> (Some err, lsp1\<lparr>cmd := None, stdin := []\<rparr>, ps1)
         | Inr pid \<Rightarrow>
             (None,
              lsp1\<lparr>cmd := Some pid, stdin := [], running := True,
                   compileCommands := compileCommandsDir\<rparr>,
              ps1(pid \<mapsto> clangdPath # args)))"

text \<open>
  \<^verbatim>\<open>SendRequest\<close> in its three parts, between which other tasks may run: the
  registration under the lock, the write with its failure path, and the wait for the
  response. \<open>wr\<close> is the outcome of the write to the child's standard input.
\<close>

definition SendRequest_register :: "LSPManager \<Rightarrow> error + (64 word \<times> nat \<times> LSPManager)" where
  "SendRequest_register lsp =
     (if \<not> running lsp then Inl NotRunning
      else let rid = messageID lsp + 1;
               responseChan = nextChan lsp
           in Inr (rid, responseChan,
                   lsp\<lparr>messageID := rid,
                       chans := (chans lsp)(responseChan := make_chan),
                       nextChan := Suc responseChan,
                       responseHandlers := (responseHandlers lsp)(rid \<mapsto> responseChan)\<rparr>))"

definition writeMessage :: "error option \<Rightarrow> json \<Rightarrow> LSPManager \<Rightarrow> error option \<times> LSPManager" where
  "writeMessage wr message lsp =
     (if \<not> running lsp then (Some NotRunning, lsp)
      else (case wr of
              Some err \<Rightarrow> (Some err, lsp)
            | None \<Rightarrow> (None, lsp\<lparr>stdin := stdin lsp @ [message]\<rparr>)))"

definition SendRequest_write :: "error option \<Rightarrow> 64 word \<Rightarrow> string \<Rightarrow> json \<Rightarrow> LSPManager
    \<Rightarrow> error option \<times> LSPManager" where
  "SendRequest_write wr rid method params lsp =
     (case writeMessage wr
             (JObj [(''jsonrpc'', JStr ''2.0''), (''id'', JNum (sint rid)),
                    (''method'', JStr method), (''params'', params)]) lsp of
        (Some err, lsp') \<Rightarrow>
          (Some err, lsp'\<lparr>responseHandlers := (responseHandlers lsp')(rid := None)\<rparr>)
      | (None, lsp') \<Rightarrow> (None, lsp'))"

definition SendRequest_await :: "nat \<Rightarrow> LSPManager \<Rightarrow> (string \<times> LSPManager) option" where
  "SendRequest_await responseChan lsp =
     (case chan_recv (chans lsp responseChan) of
        Received response ch \<Rightarrow> Some (response, lsp\<lparr>chans := (chans lsp)(responseChan := ch)\<rparr>)
      | ChanClosed \<Rightarrow> Some ([], lsp)
      | WouldBlock \<Rightarrow> None)"

definition SendNotification :: "error option \<Rightarrow> string \<Rightarrow> json \<Rightarrow> LSPManager
    \<Rightarrow> error option \<times> LSPManager" where
  "SendNotification wr method params lsp =
     writeMessage wr
       (JObj [(''jsonrpc'', JStr ''2.0''), (''method'', JStr method), (''params'', params)]) lsp"


text \<open>
  The message preamble \<^verbatim>\<open>struct { ID *int; Method string; ... }\<close> and
  \<^verbatim>\<open>json.Unmarshal\<close> into it, a library call whose outcome on a body is a parameter
  (\<open>None\<close> when it returns an error).
\<close>

record preamble =
  ID :: "64 word option"
  Method :: string

type_synonym unmarshal = "string \<Rightarrow> preamble option"

text \<open>
  What becomes of the reader task: it returns, leaving the engine in a state; it blocks
  for ever in a send while holding the lock; or it panics, which ends the process and
  leaves no state.
\<close>

datatype outcome = Returned LSPManager | Stuck LSPManager | Crashed

text \<open>
  The dispatch of one parsed frame (the \<^verbatim>\<open>if msg.ID != nil ... else if msg.Method != ""\<close>
  of \<^verbatim>\<open>readMessages\<close>). A response channel has capacity 1 and the send to it blocks
  when it is full; the notification channel has capacity 100 and the send to it is
  dropped when it is full. A send on a closed channel panics.
\<close>

definition dispatch :: "preamble \<Rightarrow> string \<Rightarrow> LSPManager \<Rightarrow> outcome" where
  "dispatch msg content lsp =
     (case ID msg of
        Some i \<Rightarrow>
          (case responseHandlers lsp i of
             Some ch \<Rightarrow>
               if closed (chans lsp ch) then Crashed
               else if length (buf (chans lsp ch)) \<ge> 1 then Stuck lsp
               else Returned
                      (lsp\<lparr>chans := (chans lsp)(ch := (chans lsp ch)\<lparr>buf := buf (chans lsp ch) @ [content]\<rparr>),
                           responseHandlers := (responseHandlers lsp)(i := None)\<rparr>)
           | None \<Rightarrow> Returned lsp)
      | None \<Rightarrow>
          if Method msg \<noteq> [] then
            (if closed (notificationChan lsp) then Crashed
             else if length (buf (notificationChan lsp)) < 100 then
               Returned (lsp\<lparr>notificationChan :=
                  (notificationChan lsp)\<lparr>buf := buf (notificationChan lsp) @ [content]\<rparr>\<rparr>)
             else Returned lsp)
          else Returned lsp)"

text \<open>The reader task, on the bytes the child writes before its output ends.\<close>

function readMessages :: "scanner \<Rightarrow> int \<Rightarrow> unmarshal \<Rightarrow> string \<Rightarrow> LSPManager \<Rightarrow> outcome" where
  "readMessages scan maxAlloc unm inp lsp =
     (if \<not> running lsp then Returned lsp
      else (case readFrame scan maxAlloc inp of
              ReadError \<Rightarrow> Returned lsp
            | ReadPanic \<Rightarrow> Crashed
            | Frame content rest \<Rightarrow>
                (case unm content of
                   None \<Rightarrow> readMessages scan maxAlloc unm rest lsp
                 | Some msg \<Rightarrow>
                     (case dispatch msg content lsp of
                        Returned lsp' \<Rightarrow> readMessages scan maxAlloc unm rest lsp'
                      | Stuck lsp' \<Rightarrow> Stuck lsp'
                      | Crashed \<Rightarrow> Crashed))))"
  by pat_completeness auto
termination
  by (relation "measure (\<lambda>(scan, maxAlloc, unm, inp, lsp). length inp)")
     (auto dest: readFrame_shorter)

declare readMessages.simps [simp del]

text \<open>
  A consumer of a notification channel (\<^verbatim>\<open>for notification := range notifChan\<close>, as in
  \<^verbatim>\<open>forwardNotifications\<close>): it forwards what is buffered to the merged channel of
  capacity 100, dropping when that is full, and then either ends, when the channel is
  closed, or waits. The result is the merged channel and whether the loop has ended.
\<close>

fun forward :: "string list \<Rightarrow> chan \<Rightarrow> chan" where
  "forward [] merged = merged"
| "forward (notification # rest) merged =
     forward rest (if length (buf merged) < 100 then merged\<lparr>buf := buf merged @ [notification]\<rparr>
                   else merged)"

definition forwardNotifications :: "chan \<Rightarrow> chan \<Rightarrow> chan \<times> bool" where
  "forwardNotifications notifChan merged = (forward (buf notifChan) merged, closed notifChan)"

text \<open>
  What the tasks other than the reader do to an engine, one step at a time: a caller
  registers a request, runs the write of its request, or receives on a response channel
  (without effect while that would block), and the engine is shut down. \<open>engine_steps\<close>
  runs such steps in any order given.
\<close>

datatype engine_op =
    OpRegister
  | OpWrite "error option" "64 word" string json
  | OpNotify "error option" string json
  | OpAwait nat
  | OpShutdown procs

fun engine_step :: "engine_op \<Rightarrow> LSPManager \<Rightarrow> LSPManager" where
  "engine_step OpRegister lsp =
     (case SendRequest_register lsp of
        Inl err \<Rightarrow> lsp
      | Inr (rid, responseChan, lsp') \<Rightarrow> lsp')"
| "engine_step (OpWrite wr rid method params) lsp = snd (SendRequest_write wr rid method params lsp)"
| "engine_step (OpNotify wr method params) lsp = snd (SendNotification wr method params lsp)"
| "engine_step (OpAwait responseChan) lsp =
     (case SendRequest_await responseChan lsp of
        None \<Rightarrow> lsp
      | Some (response, lsp') \<Rightarrow> lsp')"
| "engine_step (OpShutdown ps) lsp = fst (shutdown lsp ps)"

definition engine_steps :: "engine_op list \<Rightarrow> LSPManager \<Rightarrow> LSPManager" where
  "engine_steps ops lsp = fold engine_step ops lsp"

text \<open>
  \<^verbatim>\<open>SendRequest\<close> as a whole. A call returns a value, waits for ever, or does not
  outlive the process. \<open>meanwhile\<close> is what the reader task makes of the engine while the
  caller waits for its response.
\<close>

datatype 'a returns = Returns 'a | Waits | Dies

definition SendRequest :: "error option \<Rightarrow> (LSPManager \<Rightarrow> outcome) \<Rightarrow> string \<Rightarrow> json \<Rightarrow> LSPManager
    \<Rightarrow> (error + string) returns \<times> LSPManager" where
  "SendRequest wr meanwhile method params lsp =
     (case SendRequest_register lsp of
        Inl err \<Rightarrow> (Returns (Inl err), lsp)
      | Inr (rid, responseChan, lsp1) \<Rightarrow>
          (case SendRequest_write wr rid method params lsp1 of
             (Some err, lsp2) \<Rightarrow> (Returns (Inl err), lsp2)
           | (None, lsp2) \<Rightarrow>
               (case meanwhile lsp2 of
                  Crashed \<Rightarrow> (Dies, lsp2)
                | Stuck lsp3 \<Rightarrow>
                    (case SendRequest_await responseChan lsp3 of
                       None \<Rightarrow> (Waits, lsp3)
                     | Some (response, lsp4) \<Rightarrow> (Returns (Inr response), lsp4))
                | Returned lsp3 \<Rightarrow>
                    (case SendRequest_await responseChan lsp3 of
                       None \<Rightarrow> (Waits, lsp3)
                     | Some (response, lsp4) \<Rightarrow> (Returns (Inr response), lsp4)))))"

section \<open>Multi-server registry\<close>

definition HasSuffix :: "string \<Rightarrow> string \<Rightarrow> bool" where
  "HasSuffix s suf \<longleftrightarrow> length s \<ge> length suf \<and> drop (length s - length suf) s = suf"

definition HasPrefix :: "string \<Rightarrow> string \<Rightarrow> bool" where
  "HasPrefix s pre \<longleftrightarrow> length s \<ge> length pre \<and> take (length pre) s = pre"

definition TrimPrefix :: "string \<Rightarrow> string \<Rightarrow> string" where
  "TrimPrefix s pre = (if HasPrefix s pre then drop (length pre) s else s)"

definition detectLanguageForLSP :: "string \<Rightarrow> string" where
  "detectLanguageForLSP path =
     (if HasSuffix path ''.py'' then ''python''
      else if HasSuffix path ''.cpp'' \<or> HasSuffix path ''.cc'' \<or>
              HasSuffix path ''.cxx'' \<or> HasSuffix path ''.c'' \<or>
              HasSuffix path ''.h'' \<or> HasSuffix path ''.hpp'' then ''cpp''
      else [])"

definition extractLanguageFromParams :: "json \<Rightarrow> error + string" where
  "extractLanguageFromParams params =
     (case params of
        JObj paramsMap \<Rightarrow>
          (case map_of paramsMap ''textDocument'' of
             Some (JObj textDoc) \<Rightarrow>
               (case map_of textDoc ''uri'' of
                  Some (JStr uri) \<Rightarrow>
                    (let filePath = TrimPrefix uri ''file://'';
                         language = detectLanguageForLSP filePath
                     in if language = [] then Inl (UnknownLanguage filePath) else Inr language)
                | _ \<Rightarrow> Inl (BadParams ''uri not found in textDocument''))
           | _ \<Rightarrow> Inl (BadParams ''textDocument not found in params''))
      | _ \<Rightarrow> Inl (BadParams ''params is not a map''))"

text \<open>
  The struct \<^verbatim>\<open>MultiLSPManager\<close>: the map from language to engine, as its entries, over
  a store of the \<^verbatim>\<open>LSPManager\<close> objects, which stay reachable from their tasks after
  they leave the map. \<open>children\<close> are the live child processes of the machine and
  \<open>nextPid\<close> the identity the next started process gets (identities are never reused).
  \<open>mergedChan\<close> is the field \<^verbatim>\<open>notificationChan\<close> of the registry.
\<close>

record MultiLSPManager =
  lspServers :: "(string \<times> nat) list"
  engines :: "nat \<Rightarrow> LSPManager"
  nextEngine :: nat
  children :: procs
  nextPid :: nat
  mergedChan :: chan

definition NewMultiLSPManager :: MultiLSPManager where
  "NewMultiLSPManager =
     \<lparr>lspServers = [], engines = (\<lambda>_. NewLSPManager), nextEngine = 0,
      children = Map.empty, nextPid = 0, mergedChan = make_chan\<rparr>"

text \<open>\<^verbatim>\<open>lsp.Shutdown()\<close> on the engine object \<open>lsp\<close> of the store.\<close>

definition Shutdown :: "nat \<Rightarrow> MultiLSPManager \<Rightarrow> MultiLSPManager" where
  "Shutdown lsp m =
     (case shutdown (engines m lsp) (children m) of
        (lsp', ps') \<Rightarrow> m\<lparr>engines := (engines m)(lsp := lsp'), children := ps'\<rparr>)"

text \<open>
  \<^verbatim>\<open>StartLSP\<close>: \<open>spawn_err\<close> is the error, if any, with which the operating system
  answers the pipe and start calls of \<^verbatim>\<open>lsp.Start\<close>. The forwarder task started at the
  end is \<open>forwardNotifications\<close> above.
\<close>

definition StartLSP :: "error option \<Rightarrow> string \<Rightarrow> string \<Rightarrow> string \<Rightarrow> MultiLSPManager
    \<Rightarrow> error option \<times> MultiLSPManager" where
  "StartLSP spawn_err language serverPath compileCommandsDir m =
     (let m1 = (case map_of (lspServers m) language of
                  Some old \<Rightarrow> Shutdown old m
                | None \<Rightarrow> m);
          lsp = nextEngine m1;
          spawned = (case spawn_err of Some err \<Rightarrow> Inl err | None \<Rightarrow> Inr (nextPid m1))
      in case Start spawned serverPath compileCommandsDir NewLSPManager (children m1) of
           (res, lsp', ps') \<Rightarrow>
             (let m2 = m1\<lparr>engines := (engines m1)(lsp := lsp'), nextEngine := Suc lsp,
                          children := ps', nextPid := Suc (nextPid m1)\<rparr>
              in case res of
                   Some err \<Rightarrow> (Some (StartFailed language (Error err)), m2)
                 | None \<Rightarrow> (None, m2\<lparr>lspServers := AList.update language lsp (lspServers m2)\<rparr>)))"

definition ShutdownAll :: "MultiLSPManager \<Rightarrow> MultiLSPManager" where
  "ShutdownAll m = (fold (\<lambda>(language, lsp). Shutdown lsp) (lspServers m) m)\<lparr>lspServers := []\<rparr>"

text \<open>
  The registry's \<^verbatim>\<open>SendRequest\<close> and \<^verbatim>\<open>SendNotification\<close> look the engine up and call
  the same method on it; the engine object in the store changes as the call changes it.
\<close>

definition MultiSendRequest :: "error option \<Rightarrow> (LSPManager \<Rightarrow> outcome) \<Rightarrow> MultiLSPManager
    \<Rightarrow> string \<Rightarrow> string \<Rightarrow> json \<Rightarrow> (error + string) returns \<times> MultiLSPManager" where
  "MultiSendRequest wr meanwhile m language method params =
     (case map_of (lspServers m) language of
        None \<Rightarrow> (Returns (Inl (NoEngine language)), m)
      | Some lsp \<Rightarrow>
          (case SendRequest wr meanwhile method params (engines m lsp) of
             (res, lsp') \<Rightarrow> (res, m\<lparr>engines := (engines m)(lsp := lsp')\<rparr>)))"

definition MultiSendNotification :: "error option \<Rightarrow> MultiLSPManager
    \<Rightarrow> string \<Rightarrow> string \<Rightarrow> json \<Rightarrow> error option \<times> MultiLSPManager" where
  "MultiSendNotification wr m language method params =
     (case map_of (lspServers m) language of
        None \<Rightarrow> (Some (NoEngine language), m)
      | Some lsp \<Rightarrow>
          (case SendNotification wr method params (engines m lsp) of
             (res, lsp') \<Rightarrow> (res, m\<lparr>engines := (engines m)(lsp := lsp')\<rparr>)))"

definition RouteRequest :: "error option \<Rightarrow> (LSPManager \<Rightarrow> outcome) \<Rightarrow> MultiLSPManager
    \<Rightarrow> string \<Rightarrow> json \<Rightarrow> (error + string) returns \<times> MultiLSPManager" where
  "RouteRequest wr meanwhile m method params =
     (case extractLanguageFromParams params of
        Inl err \<Rightarrow> (Returns (Inl err), m)
      | Inr language \<Rightarrow> MultiSendRequest wr meanwhile m language method params)"

definition RouteNotification :: "error option \<Rightarrow> MultiLSPManager
    \<Rightarrow> string \<Rightarrow> json \<Rightarrow> error option \<times> MultiLSPManager" where
  "RouteNotification wr m method params =
     (case extractLanguageFromParams params of
        Inl err \<Rightarrow> (Some err, m)
      | Inr language \<Rightarrow> MultiSendNotification wr m language method params)"

text \<open>
  \<^verbatim>\<open>InitializeLSP\<close>: the \<^verbatim>\<open>initialize\<close> request, whose response is awaited and dropped,
  then the \<^verbatim>\<open>initialized\<close> notification. \<open>wr\<close> gives the outcome of each write by the
  method written, \<open>meanwhile\<close> the reader's work while the request of a method waits.
\<close>

definition initParams :: "string \<Rightarrow> json" where
  "initParams rootDir =
     JObj [(''processId'', JNull),
           (''rootUri'', JStr (''file://'' @ rootDir)),
           (''capabilities'',
              JObj [(''textDocument'',
                 JObj [(''completion'',
                          JObj [(''completionItem'', JObj [(''snippetSupport'', JBool True)])]),
                       (''publishDiagnostics'', JObj [])])])]"

definition InitializeLSP :: "(string \<Rightarrow> error option) \<Rightarrow> (string \<Rightarrow> LSPManager \<Rightarrow> outcome)
    \<Rightarrow> MultiLSPManager \<Rightarrow> string \<Rightarrow> string \<Rightarrow> error option returns \<times> MultiLSPManager" where
  "InitializeLSP wr meanwhile m language rootDir =
     (case MultiSendRequest (wr ''initialize'') (meanwhile ''initialize'') m language
             ''initialize'' (initParams rootDir) of
        (Waits, m1) \<Rightarrow> (Waits, m1)
      | (Dies, m1) \<Rightarrow> (Dies, m1)
      | (Returns (Inl err), m1) \<Rightarrow> (Returns (Some err), m1)
      | (Returns (Inr response), m1) \<Rightarrow>
          (case MultiSendNotification (wr ''initialized'') m1 language ''initialized'' (JObj []) of
             (res, m2) \<Rightarrow> (Returns res, m2)))"

section \<open>Session gateway\<close>

text \<open>
  The file system maps a cleaned path to nothing, when no file is there, or to what
  reading it gives, an error or the content. The library functions the gateway calls are
  parameters: \<^verbatim>\<open>filepath.Clean\<close>, \<^verbatim>\<open>filepath.Dir\<close>, and \<open>decode\<close>, \<^verbatim>\<open>json.Unmarshal\<close>
  into an \<^verbatim>\<open>interface{}\<close> (\<open>None\<close> when it returns an error).
\<close>

type_synonym files = "string \<rightharpoonup> error + string"

record lib =
  Clean :: "string \<Rightarrow> string"
  Dir :: "string \<Rightarrow> string"
  decode :: "string \<Rightarrow> json option"

text \<open>
  What the outside does while one client message is handled: the errors, if any, of
  \<^verbatim>\<open>os.MkdirAll\<close> and \<^verbatim>\<open>os.WriteFile\<close> on a path and of starting a child, the outcome of a
  write to a child's standard input, by the method written, and the reader's work on the
  engine while the request of a method waits for its response.
\<close>

record env =
  mkdir_err :: "string \<Rightarrow> error option"
  write_err :: "string \<Rightarrow> error option"
  spawn_err :: "error option"
  stdin_err :: "string \<Rightarrow> error option"
  reader_work :: "string \<Rightarrow> LSPManager \<Rightarrow> outcome"

definition ReadFile :: "lib \<Rightarrow> files \<Rightarrow> string \<Rightarrow> error + string" where
  "ReadFile l fs path =
     (let cleanPath = Clean l path
      in case fs cleanPath of
           None \<Rightarrow> Inl NotFound
         | Some r \<Rightarrow> r)"

definition WriteFile :: "lib \<Rightarrow> env \<Rightarrow> files \<Rightarrow> string \<Rightarrow> string \<Rightarrow> error option \<times> files" where
  "WriteFile l e fs path content =
     (let cleanPath = Clean l path;
          dir = Dir l cleanPath
      in case mkdir_err e dir of
           Some err \<Rightarrow> (Some err, fs)
         | None \<Rightarrow>
             (case write_err e cleanPath of
                Some err \<Rightarrow> (Some err, fs)
              | None \<Rightarrow> (None, fs(cleanPath \<mapsto> Inr content))))"

definition detectLanguage :: "string \<Rightarrow> error + string" where
  "detectLanguage path =
     (case slice_from path (int (length path) - 3) of
        Inl e \<Rightarrow> Inl e
      | Inr ext \<Rightarrow>
          Inr (if ext = ''.py'' then ''python''
               else if ext = ''.cpp'' \<or> ext = ''.cc'' \<or> ext = ''.cxx'' then ''cpp''
               else if ext = ''.c'' then ''c''
               else if ext = ''.h'' \<or> ext = ''.hpp'' then ''cpp''
               else ''plaintext''))"

text \<open>
  What \<^verbatim>\<open>HandleWebSocket\<close> works on: its variables \<^verbatim>\<open>currentFile\<close> and
  \<^verbatim>\<open>currentContent\<close>, the registry it was given, and the file system. A client message is
  its type with the payload as unmarshalled into the struct of that type, \<open>None\<close> when
  that fails; \<open>Other\<close> is any other type. The handling of a message ends with the loop
  going on, with the handler waiting for ever, or with a panic; in each case \<open>sent\<close>
  messages have been written to the client.
\<close>

record world =
  currentFile :: string
  currentContent :: string
  lspManager :: MultiLSPManager
  files :: files

datatype client_msg =
    OpenFile "string option"
  | ConfigureLSP "(string \<times> string \<times> string) option"
  | Delta "(int \<times> int \<times> string) option"
  | Save "(string \<times> string) option"
  | LSPRequest "(int \<times> string \<times> string) option"
  | Other string

datatype handled =
    Continues "json list" world
  | Blocks "json list" world
  | Panics "json list"

definition sendError :: "string \<Rightarrow> json" where
  "sendError message =
     JObj [(''type'', JStr ''error''), (''payload'', JObj [(''message'', JStr message)])]"

text \<open>An error of \<^verbatim>\<open>RouteNotification\<close> is logged and has no other effect.\<close>

definition notify :: "env \<Rightarrow> string \<Rightarrow> json \<Rightarrow> world \<Rightarrow> world" where
  "notify e method params w =
     w\<lparr>lspManager := snd (RouteNotification (stdin_err e method) (lspManager w) method params)\<rparr>"

definition handle_open_file :: "lib \<Rightarrow> env \<Rightarrow> string \<Rightarrow> world \<Rightarrow> handled" where
  "handle_open_file l e path w =
     (case ReadFile l (files w) path of
        Inl err \<Rightarrow> Continues [sendError (''Failed to read file: '' @ Error err)] w
      | Inr content \<Rightarrow>
          (let w' = w\<lparr>currentFile := path, currentContent := content\<rparr>;
               response = JObj [(''type'', JStr ''file_opened''),
                                (''payload'', JObj [(''path'', JStr path), (''content'', JStr content)])]
           in case detectLanguage path of
                Inl err \<Rightarrow> Panics [response]
              | Inr languageId \<Rightarrow>
                  Continues [response]
                    (notify e ''textDocument/didOpen''
                       (JObj [(''textDocument'',
                          JObj [(''uri'', JStr (''file://'' @ path)),
                                (''languageId'', JStr languageId),
                                (''version'', JNum 1),
                                (''text'', JStr content)])]) w')))"

definition handle_configure_lsp :: "env \<Rightarrow> string \<Rightarrow> string \<Rightarrow> string \<Rightarrow> world \<Rightarrow> handled" where
  "handle_configure_lsp e language serverPath0 compileCommandsDir w =
     (if language = [] then Continues [sendError ''Language is required''] w
      else if serverPath0 = [] \<and> language \<noteq> ''cpp'' \<and> language \<noteq> ''python''
      then Continues [sendError (''Unknown language: '' @ language)] w
      else
        (let serverPath = (if serverPath0 \<noteq> [] then serverPath0
                           else if language = ''cpp'' then ''clangd'' else ''pylsp'')
         in case StartLSP (spawn_err e) language serverPath compileCommandsDir (lspManager w) of
              (Some err, m1) \<Rightarrow>
                Continues [sendError (''Failed to start LSP: '' @ Error err)] (w\<lparr>lspManager := m1\<rparr>)
            | (None, m1) \<Rightarrow>
                (let rootDir = (if compileCommandsDir = [] then ''/'' else compileCommandsDir)
                 in case InitializeLSP (stdin_err e) (reader_work e) m1 language rootDir of
                      (Waits, m2) \<Rightarrow> Blocks [] (w\<lparr>lspManager := m2\<rparr>)
                    | (Dies, m2) \<Rightarrow> Panics []
                    | (Returns (Some err), m2) \<Rightarrow>
                        Continues [sendError (''Failed to initialize LSP: '' @ Error err)]
                          (w\<lparr>lspManager := m2\<rparr>)
                    | (Returns None, m2) \<Rightarrow>
                        Continues
                          [JObj [(''type'', JStr ''lsp_configured''),
                                 (''payload'', JObj [(''success'', JBool True),
                                                     (''language'', JStr language)])]]
                          (w\<lparr>lspManager := m2\<rparr>))))"

text \<open>The \<^verbatim>\<open>textDocument/didChange\<close> parameters that the \<^verbatim>\<open>delta\<close> case builds.\<close>

definition didChange_params :: "string \<Rightarrow> string \<Rightarrow> json" where
  "didChange_params file content =
     JObj [(''textDocument'', JObj [(''uri'', JStr (''file://'' @ file)), (''version'', JNum 1)]),
           (''contentChanges'', JArr [JObj [(''text'', JStr content)]])]"

definition handle_delta :: "env \<Rightarrow> int \<Rightarrow> int \<Rightarrow> string \<Rightarrow> world \<Rightarrow> handled" where
  "handle_delta e fromPos toPos ins w =
     (case ApplyDelta (currentContent w) fromPos toPos ins of
        Inl Panic \<Rightarrow> Panics []
      | Inl err \<Rightarrow> Continues [sendError (''Failed to apply delta: '' @ Error err)] w
      | Inr newContent \<Rightarrow>
          (let w' = w\<lparr>currentContent := newContent\<rparr>
           in Continues []
                (notify e ''textDocument/didChange''
                   (didChange_params (currentFile w') (currentContent w')) w')))"

definition handle_save :: "lib \<Rightarrow> env \<Rightarrow> string \<Rightarrow> string \<Rightarrow> world \<Rightarrow> handled" where
  "handle_save l e path content w =
     (case WriteFile l e (files w) path content of
        (Some err, fs') \<Rightarrow>
          Continues [sendError (''Failed to save file: '' @ Error err)] (w\<lparr>files := fs'\<rparr>)
      | (None, fs') \<Rightarrow>
          Continues [JObj [(''type'', JStr ''file_saved''), (''payload'', JObj [(''success'', JBool True)])]]
            (notify e ''textDocument/didSave''
               (JObj [(''textDocument'', JObj [(''uri'', JStr (''file://'' @ path))])])
               (w\<lparr>files := fs'\<rparr>)))"

definition handle_lsp_request :: "lib \<Rightarrow> env \<Rightarrow> int \<Rightarrow> string \<Rightarrow> string \<Rightarrow> world \<Rightarrow> handled" where
  "handle_lsp_request l e rid method rawParams w =
     (let params = (if length rawParams > 0
                    then (case decode l rawParams of Some v \<Rightarrow> v | None \<Rightarrow> JNull)
                    else JNull)
      in case RouteRequest (stdin_err e method) (reader_work e method) (lspManager w) method params of
           (Waits, m') \<Rightarrow> Blocks [] (w\<lparr>lspManager := m'\<rparr>)
         | (Dies, m') \<Rightarrow> Panics []
         | (Returns (Inl err), m') \<Rightarrow>
             Continues [sendError (''LSP request failed: '' @ Error err)] (w\<lparr>lspManager := m'\<rparr>)
         | (Returns (Inr result), m') \<Rightarrow>
             (let lspResponse = (case decode l result of Some (JObj kvs) \<Rightarrow> kvs | _ \<Rightarrow> [])
              in Continues
                   [JObj [(''type'', JStr ''lsp_response''),
                          (''payload'',
                             JObj [(''id'', JNum rid),
                                   (''jsonrpc'', JStr ''2.0''),
                                   (''result'', (case map_of lspResponse ''result'' of
                                                   Some v \<Rightarrow> v
                                                 | None \<Rightarrow> JNull))])]]
                   (w\<lparr>lspManager := m'\<rparr>)))"

text \<open>The \<^verbatim>\<open>switch msg.Type\<close>.\<close>

fun handle_message :: "lib \<Rightarrow> env \<Rightarrow> client_msg \<Rightarrow> world \<Rightarrow> handled" where
  "handle_message l e (OpenFile None) w = Continues [sendError ''Invalid open_file payload''] w"
| "handle_message l e (OpenFile (Some path)) w = handle_open_file l e path w"
| "handle_message l e (ConfigureLSP None) w = Continues [sendError ''Invalid configure_lsp payload''] w"
| "handle_message l e (ConfigureLSP (Some (language, serverPath, compileCommandsDir))) w =
     handle_configure_lsp e language serverPath compileCommandsDir w"
| "handle_message l e (Delta None) w = Continues [sendError ''Invalid delta payload''] w"
| "handle_message l e (Delta (Some (fromPos, toPos, ins))) w = handle_delta e fromPos toPos ins w"
| "handle_message l e (Save None) w = Continues [sendError ''Invalid save payload''] w"
| "handle_message l e (Save (Some (path, content))) w = handle_save l e path content w"
| "handle_message l e (LSPRequest None) w = Continues [sendError ''Invalid lsp_request payload''] w"
| "handle_message l e (LSPRequest (Some (rid, method, rawParams))) w =
     handle_lsp_request l e rid method rawParams w"
| "handle_message l e (Other t) w = Continues [sendError (''Unknown message type: '' @ t)] w"

text \<open>
  The message loop of \<^verbatim>\<open>HandleWebSocket\<close> on the messages the client sends before the
  connection ends, each with what the outside does while it is handled. (The task that
  forwards the merged notifications to the client runs beside the loop and is not part
  of it.)
\<close>

fun prepend :: "json list \<Rightarrow> handled \<Rightarrow> handled" where
  "prepend out (Continues out' w) = Continues (out @ out') w"
| "prepend out (Blocks out' w) = Blocks (out @ out') w"
| "prepend out (Panics out') = Panics (out @ out')"

fun HandleWebSocket :: "lib \<Rightarrow> (env \<times> client_msg) list \<Rightarrow> world \<Rightarrow> handled" where
  "HandleWebSocket l [] w = Continues [] w"
| "HandleWebSocket l ((e, msg) # rest) w =
     (case handle_message l e msg w of
        Continues out w' \<Rightarrow> prepend out (HandleWebSocket l rest w')
      | Blocks out w' \<Rightarrow> Blocks out w'
      | Panics out \<Rightarrow> Panics out)"

section \<open>Invariant, reference definitions and sample data of the engine\<close>

text \<open>
  The invariant of an engine: the notification channel is open; every channel in the
  pending table has been allocated and is still empty and open (nothing has been
  delivered to a request that is still pending); and no two pending ids share a
  channel. It holds of \<open>NewLSPManager\<close> and every operation of the engine keeps it.
\<close>

definition engine_inv :: "LSPManager \<Rightarrow> bool" where
  "engine_inv lsp \<longleftrightarrow>
     \<not> closed (notificationChan lsp) \<and>
     (\<forall>i ch. responseHandlers lsp i = Some ch \<longrightarrow> ch < nextChan lsp \<and> chans lsp ch = make_chan) \<and>
     (\<forall>i j ch. responseHandlers lsp i = Some ch \<and> responseHandlers lsp j = Some ch \<longrightarrow> i = j)"

text \<open>
  The header block as the specification words it: the header lines up to the first blank
  line, and what follows it; \<open>None\<close> when the stream ends before a blank line. The
  declared length is the value of the last line that scans as a \<open>Content-Length\<close>.
\<close>

function header_block :: "string \<Rightarrow> (string list \<times> string) option" where
  "header_block inp =
     (case ReadString LF inp of
        None \<Rightarrow> None
      | Some (line, rest) \<Rightarrow>
          if line = CRLF then Some ([], rest)
          else (case header_block rest of
                  None \<Rightarrow> None
                | Some (ls, r) \<Rightarrow> Some (line # ls, r)))"
  by pat_completeness auto
termination
  by (relation "measure length") (auto dest: ReadString_shorter)

declare header_block.simps [simp del]

definition declared :: "scanner \<Rightarrow> string list \<Rightarrow> int \<Rightarrow> int" where
  "declared scan ls n0 = fold (\<lambda>line n. case scan line of Some n' \<Rightarrow> n' | None \<Rightarrow> n) ls n0"

text \<open>
  Sample data: a response body, the outcomes of the two library calls on the header
  lines and bodies of the examples, the allocation limit of the 64-bit runtime, an engine
  that has been started, and that engine with one request registered.
\<close>

definition sample_body :: string where
  \<open>sample_body = ''{"jsonrpc":"2.0","id":1,"result":null}''\<close>

definition sample_scan :: scanner where
  "sample_scan =
     map_of [(''Content-Length: 38'' @ CRLF, 38),
             (''Content-Length: 33554432'' @ CRLF, 33554432),
             (''Content-Length: 281474976710657'' @ CRLF, 281474976710657)]"

definition sample_maxAlloc :: int where
  "sample_maxAlloc = 2 ^ 48"

definition sample_unmarshal :: unmarshal where
  "sample_unmarshal = map_of [(sample_body, \<lparr>ID = Some 1, Method = []\<rparr>)]"

definition started :: LSPManager where
  "started = fst (snd (Start (Inr 1) ''clangd'' [] NewLSPManager Map.empty))"

definition one_pending :: LSPManager where
  "one_pending =
     (case SendRequest_register started of
        Inr (rid, ch, lsp) \<Rightarrow> lsp
      | Inl err \<Rightarrow> started)"

section \<open>Reference definitions and sample data of the registry\<close>

text \<open>
  Routing as the specification words it: the URI is \<open>params.textDocument.uri\<close>, a
  leading \<open>file://\<close> is stripped, and the language follows the suffix policy, \<open>.py\<close> for
  \<open>python\<close> and \<open>.c .cc .cpp .cxx .h .hpp\<close> for \<open>cpp\<close>.
\<close>

definition uri_of :: "json \<Rightarrow> string option" where
  "uri_of params =
     (case params of
        JObj ps \<Rightarrow>
          (case map_of ps ''textDocument'' of
             Some (JObj td) \<Rightarrow>
               (case map_of td ''uri'' of
                  Some (JStr uri) \<Rightarrow> Some uri
                | _ \<Rightarrow> None)
           | _ \<Rightarrow> None)
      | _ \<Rightarrow> None)"

definition strip_file_scheme :: "string \<Rightarrow> string" where
  "strip_file_scheme uri = (if \<exists>rest. uri = ''file://'' @ rest then drop (length ''file://'') uri else uri)"

definition ends_with :: "string \<Rightarrow> string \<Rightarrow> bool" where
  "ends_with path suf \<longleftrightarrow> (\<exists>pre. path = pre @ suf)"

definition language_policy :: "string \<Rightarrow> string option" where
  "language_policy path =
     (if ends_with path ''.py'' then Some ''python''
      else if \<exists>suf \<in> set [''.c'', ''.cc'', ''.cpp'', ''.cxx'', ''.h'', ''.hpp'']. ends_with path suf
           then Some ''cpp''
      else None)"

text \<open>
  Sample data: a registry in which a \<open>cpp\<close> engine and then a \<open>python\<close> engine have been
  started, and parameters that name a Python file.
\<close>

definition cpp_server :: MultiLSPManager where
  "cpp_server = snd (StartLSP None ''cpp'' ''clangd'' [] NewMultiLSPManager)"

definition two_servers :: MultiLSPManager where
  "two_servers = snd (StartLSP None ''python'' ''pylsp'' [] cpp_server)"

definition py_params :: json where
  "py_params = JObj [(''textDocument'', JObj [(''uri'', JStr ''file:///x/y.py'')])]"

text \<open>
  The invariant of the registry: each language has one entry; the entries name allocated
  engine objects; the children of allocated engines are processes that have been
  started, no two engines share a child; and every live child process is the child of a
  running engine that is registered. So a language has at most one live child, that of
  its one entry. It holds of \<open>NewMultiLSPManager\<close>.
\<close>

definition registry_inv :: "MultiLSPManager \<Rightarrow> bool" where
  "registry_inv m \<longleftrightarrow>
     distinct (map fst (lspServers m)) \<and>
     (\<forall>language lsp. map_of (lspServers m) language = Some lsp \<longrightarrow> lsp < nextEngine m) \<and>
     (\<forall>lsp pid. lsp < nextEngine m \<and> cmd (engines m lsp) = Some pid \<longrightarrow> pid < nextPid m) \<and>
     (\<forall>lsp lsp' pid. lsp < nextEngine m \<and> lsp' < nextEngine m \<and>
         cmd (engines m lsp) = Some pid \<and> cmd (engines m lsp') = Some pid \<longrightarrow> lsp = lsp') \<and>
     (\<forall>pid. pid \<in> dom (children m) \<longrightarrow>
        (\<exists>language lsp. map_of (lspServers m) language = Some lsp \<and>
           cmd (engines m lsp) = Some pid \<and> running (engines m lsp)))"

text \<open>Sample data: the registry after \<open>cpp\<close> has been started with the server \<open>A\<close>.\<close>

definition cpp_A :: MultiLSPManager where
  "cpp_A = snd (StartLSP None ''cpp'' ''A'' [] NewMultiLSPManager)"


section \<open>Properties of the document mirror\<close>

text \<open>
  C1. For every content \<open>C\<close>, positions and insert text: when
  \<open>0 \<le> fromPos \<le> toPos \<le> len(C)\<close>, \<open>ApplyDelta\<close> returns \<open>C[:fromPos] + insert + C[toPos:]\<close>
  (in particular neither slice panics); for every other input it returns the
  invalid-range error and no content.
\<close>

theorem ApplyDelta_contract:
  "(0 \<le> fromPos \<and> fromPos \<le> toPos \<and> toPos \<le> int (length C) \<longrightarrow>
      ApplyDelta C fromPos toPos ins = Inr (take (nat fromPos) C @ ins @ drop (nat toPos) C)) \<and>
   (\<not> (0 \<le> fromPos \<and> fromPos \<le> toPos \<and> toPos \<le> int (length C)) \<longrightarrow>
      ApplyDelta C fromPos toPos ins = Inl InvalidRange)"
  by (auto simp: ApplyDelta_def slice_to_def slice_from_def)

theorem ApplyDelta_contract_witness:
  "ApplyDelta ''abcdef'' 2 4 ''XY'' = Inr ''abXYef'' \<and>
   ApplyDelta ''abcdef'' 5 3 [] = Inl InvalidRange"
  using ApplyDelta_contract [of 2 4 "''abcdef''" "''XY''"]
        ApplyDelta_contract [of 5 3 "''abcdef''" "[]"]
  by simp

section \<open>Properties of the engine\<close>

subsection \<open>The invariant is kept\<close>

lemma engine_inv_New: "engine_inv NewLSPManager"
  by (simp add: engine_inv_def NewLSPManager_def make_chan_def)

lemma engine_invD:
  "engine_inv lsp \<Longrightarrow> responseHandlers lsp i = Some ch \<Longrightarrow> ch < nextChan lsp \<and> chans lsp ch = make_chan"
  by (simp add: engine_inv_def)

lemma engine_inv_inj:
  "engine_inv lsp \<Longrightarrow> responseHandlers lsp i = Some ch \<Longrightarrow> responseHandlers lsp j = Some ch \<Longrightarrow> i = j"
  unfolding engine_inv_def by blast

lemma engine_inv_open: "engine_inv lsp \<Longrightarrow> \<not> closed (notificationChan lsp)"
  by (simp add: engine_inv_def)

lemma engine_invI:
  assumes "\<not> closed (notificationChan lsp)"
    and "\<And>i ch. responseHandlers lsp i = Some ch \<Longrightarrow> ch < nextChan lsp \<and> chans lsp ch = make_chan"
    and "\<And>i j ch. responseHandlers lsp i = Some ch \<Longrightarrow> responseHandlers lsp j = Some ch \<Longrightarrow> i = j"
  shows "engine_inv lsp"
  unfolding engine_inv_def using assms by blast

lemma engine_inv_register:
  assumes ok: "engine_inv lsp" and reg: "SendRequest_register lsp = Inr (rid, ch, lsp')"
  shows "engine_inv lsp'"
proof -
  from reg have lsp': "lsp' = lsp\<lparr>messageID := messageID lsp + 1,
      chans := (chans lsp)(nextChan lsp := make_chan), nextChan := Suc (nextChan lsp),
      responseHandlers := (responseHandlers lsp)(messageID lsp + 1 \<mapsto> nextChan lsp)\<rparr>"
    by (auto simp: SendRequest_register_def Let_def split: if_splits)
  have fresh: "responseHandlers lsp i \<noteq> Some (nextChan lsp)" for i
    using engine_invD [OF ok, of i "nextChan lsp"] by auto
  show ?thesis
  proof (rule engine_invI)
    show "\<not> closed (notificationChan lsp')"
      using engine_inv_open [OF ok] by (simp add: lsp')
  next
    fix i c
    assume "responseHandlers lsp' i = Some c"
    then have "c = nextChan lsp \<or> responseHandlers lsp i = Some c"
      by (simp add: lsp' split: if_splits)
    then show "c < nextChan lsp' \<and> chans lsp' c = make_chan"
      using engine_invD [OF ok, of i c] by (auto simp: lsp')
  next
    fix i j c
    assume "responseHandlers lsp' i = Some c" "responseHandlers lsp' j = Some c"
    then show "i = j"
      using fresh engine_inv_inj [OF ok, of i c j] by (auto simp: lsp' split: if_splits)
  qed
qed

lemma engine_inv_remove:
  assumes ok: "engine_inv lsp"
    and h: "responseHandlers lsp' = (responseHandlers lsp)(rid := None)"
    and n: "nextChan lsp' = nextChan lsp"
    and c: "\<And>i ch. responseHandlers lsp' i = Some ch \<Longrightarrow> chans lsp' ch = chans lsp ch"
    and o: "closed (notificationChan lsp') = closed (notificationChan lsp)"
  shows "engine_inv lsp'"
proof (rule engine_invI)
  show "\<not> closed (notificationChan lsp')"
    using engine_inv_open [OF ok] o by simp
next
  fix i ch
  assume a: "responseHandlers lsp' i = Some ch"
  then have "responseHandlers lsp i = Some ch"
    by (simp add: h split: if_splits)
  then show "ch < nextChan lsp' \<and> chans lsp' ch = make_chan"
    using engine_invD [OF ok] c [OF a] n by simp
next
  fix i j ch
  assume "responseHandlers lsp' i = Some ch" and "responseHandlers lsp' j = Some ch"
  then have "responseHandlers lsp i = Some ch" "responseHandlers lsp j = Some ch"
    by (simp_all add: h split: if_splits)
  then show "i = j"
    by (rule engine_inv_inj [OF ok])
qed

lemma engine_inv_cong:
  assumes "engine_inv lsp" "responseHandlers lsp' = responseHandlers lsp"
    "chans lsp' = chans lsp" "nextChan lsp' = nextChan lsp"
    "notificationChan lsp' = notificationChan lsp"
  shows "engine_inv lsp'"
  using assms by (simp add: engine_inv_def)

lemma engine_inv_writeMessage:
  "engine_inv lsp \<Longrightarrow> engine_inv (snd (writeMessage wr message lsp))"
  by (erule engine_inv_cong) (simp_all add: writeMessage_def split: option.splits)

lemma writeMessage_fields:
  "responseHandlers (snd (writeMessage wr message lsp)) = responseHandlers lsp"
  "chans (snd (writeMessage wr message lsp)) = chans lsp"
  "nextChan (snd (writeMessage wr message lsp)) = nextChan lsp"
  "notificationChan (snd (writeMessage wr message lsp)) = notificationChan lsp"
  "running (snd (writeMessage wr message lsp)) = running lsp"
  "messageID (snd (writeMessage wr message lsp)) = messageID lsp"
  by (simp_all add: writeMessage_def split: option.splits)

lemma engine_inv_write:
  assumes "engine_inv lsp"
  shows "engine_inv (snd (SendRequest_write wr rid method params lsp))"
proof -
  let ?message = "JObj [(''jsonrpc'', JStr ''2.0''), (''id'', JNum (sint rid)),
                    (''method'', JStr method), (''params'', params)]"
  obtain res lsp' where w: "writeMessage wr ?message lsp = (res, lsp')"
    by (cases "writeMessage wr ?message lsp")
  have inv': "engine_inv lsp'"
    using engine_inv_writeMessage [OF assms, of wr ?message] w by simp
  show ?thesis
  proof (cases res)
    case None
    with w inv' show ?thesis by (simp add: SendRequest_write_def)
  next
    case (Some err)
    have "engine_inv (lsp'\<lparr>responseHandlers := (responseHandlers lsp')(rid := None)\<rparr>)"
      by (rule engine_inv_remove [OF inv', where rid = rid]) simp_all
    with Some w show ?thesis by (simp add: SendRequest_write_def)
  qed
qed

lemma engine_inv_notify:
  "engine_inv lsp \<Longrightarrow> engine_inv (snd (SendNotification wr method params lsp))"
  unfolding SendNotification_def by (rule engine_inv_writeMessage)

lemma engine_inv_shutdown: "engine_inv lsp \<Longrightarrow> engine_inv (fst (shutdown lsp ps))"
  by (erule engine_inv_cong) (simp_all add: shutdown_def)

lemma engine_inv_Start:
  "engine_inv lsp \<Longrightarrow> engine_inv (fst (snd (Start spawned p d lsp ps)))"
  by (erule engine_inv_cong)
     (simp_all add: Start_def shutdown_def Let_def split: sum.splits prod.splits)

lemma dispatch_not_stopped:
  assumes ok: "engine_inv lsp"
  shows "\<exists>lsp'. dispatch msg content lsp = Returned lsp'"
proof (cases "ID msg")
  case None
  then show ?thesis
    using engine_inv_open [OF ok] by (simp add: dispatch_def)
next
  case (Some j)
  show ?thesis
  proof (cases "responseHandlers lsp j")
    case None
    with Some show ?thesis by (simp add: dispatch_def)
  next
    case (Some c)
    with engine_invD [OF ok Some] \<open>ID msg = Some j\<close> show ?thesis
      by (simp add: dispatch_def make_chan_def)
  qed
qed

lemma dispatch_keeps:
  assumes ok: "engine_inv lsp" and d: "dispatch msg content lsp = Returned lsp'"
  shows "engine_inv lsp'"
    and "running lsp' = running lsp"
    and "messageID lsp' = messageID lsp"
    and "responseHandlers lsp' i = Some ch \<Longrightarrow> responseHandlers lsp i = Some ch"
    and "(\<And>j. responseHandlers lsp j \<noteq> Some c) \<Longrightarrow> chans lsp' c = chans lsp c"
proof -
  show "running lsp' = running lsp" "messageID lsp' = messageID lsp"
    using d by (auto simp: dispatch_def split: option.splits if_splits)
  show "responseHandlers lsp' i = Some ch \<Longrightarrow> responseHandlers lsp i = Some ch"
    using d by (auto simp: dispatch_def split: option.splits if_splits)
  show "(\<And>j. responseHandlers lsp j \<noteq> Some c) \<Longrightarrow> chans lsp' c = chans lsp c"
    using d by (auto simp: dispatch_def split: option.splits if_splits)
  show "engine_inv lsp'"
  proof (cases "ID msg")
    case None
    then show ?thesis
      using ok d by (auto simp: dispatch_def engine_inv_def split: if_splits)
  next
    case (Some j)
    show ?thesis
    proof (cases "responseHandlers lsp j")
      case None
      with Some ok d show ?thesis by (simp add: dispatch_def)
    next
      case (Some c)
      have c: "chans lsp c = make_chan"
        using engine_invD [OF ok Some] by simp
      have r: "lsp' = lsp\<lparr>chans := (chans lsp)(c := (chans lsp c)\<lparr>buf := buf (chans lsp c) @ [content]\<rparr>),
                       responseHandlers := (responseHandlers lsp)(j := None)\<rparr>"
        using \<open>ID msg = Some j\<close> Some c d by (simp add: dispatch_def make_chan_def)
      show ?thesis
      proof (rule engine_inv_remove [OF ok, where rid = j])
        show "responseHandlers lsp' = (responseHandlers lsp)(j := None)"
          by (simp add: r)
        show "nextChan lsp' = nextChan lsp" by (simp add: r)
        show "closed (notificationChan lsp') = closed (notificationChan lsp)" by (simp add: r)
        fix i ch
        assume "responseHandlers lsp' i = Some ch"
        then have "i \<noteq> j" "responseHandlers lsp i = Some ch"
          by (auto simp: r split: if_splits)
        with Some engine_inv_inj [OF ok] have "ch \<noteq> c" by blast
        then show "chans lsp' ch = chans lsp ch" by (simp add: r)
      qed
    qed
  qed
qed

lemma readMessages_keeps:
  "engine_inv lsp \<Longrightarrow> readMessages scan maxAlloc unm inp lsp = Returned lspF \<Longrightarrow>
     engine_inv lspF \<and>
     (\<forall>i ch. responseHandlers lspF i = Some ch \<longrightarrow> responseHandlers lsp i = Some ch) \<and>
     (\<forall>c. (\<forall>j. responseHandlers lsp j \<noteq> Some c) \<longrightarrow> chans lspF c = chans lsp c)"
proof (induction scan maxAlloc unm inp lsp rule: readMessages.induct)
  case (1 scan maxAlloc unm inp lsp)
  note eq = readMessages.simps [of scan maxAlloc unm inp lsp]
  show ?case
  proof (cases "running lsp")
    case False
    with "1.prems" show ?thesis by (simp add: eq)
  next
    case True
    show ?thesis
    proof (cases "readFrame scan maxAlloc inp")
      case ReadError
      with True "1.prems" show ?thesis by (simp add: eq)
    next
      case ReadPanic
      with True "1.prems" show ?thesis by (simp add: eq)
    next
      case (Frame content rest)
      show ?thesis
      proof (cases "unm content")
        case None
        with True Frame "1.prems" have "readMessages scan maxAlloc unm rest lsp = Returned lspF"
          by (simp add: eq)
        from "1.IH"(1) [OF _ Frame None "1.prems"(1) this] True show ?thesis
          by simp
      next
        case (Some msg)
        from dispatch_not_stopped [OF "1.prems"(1), of msg content]
        obtain lsp' where d: "dispatch msg content lsp = Returned lsp'" by blast
        note keeps = dispatch_keeps [OF "1.prems"(1) d]
        from True Frame Some d "1.prems" have r: "readMessages scan maxAlloc unm rest lsp' = Returned lspF"
          by (simp add: eq)
        from "1.IH"(2) [OF _ Frame Some d keeps(1) r] True
        have ih: "engine_inv lspF"
          "\<And>i ch. responseHandlers lspF i = Some ch \<Longrightarrow> responseHandlers lsp' i = Some ch"
          "\<And>c. (\<forall>j. responseHandlers lsp' j \<noteq> Some c) \<Longrightarrow> chans lspF c = chans lsp' c"
          by simp_all
        have sub: "responseHandlers lsp i = Some ch" if "responseHandlers lspF i = Some ch" for i ch
          using keeps(4) [OF ih(2) [OF that]] by simp
        have out: "chans lspF c = chans lsp c" if n: "\<forall>j. responseHandlers lsp j \<noteq> Some c" for c
        proof -
          have "\<forall>j. responseHandlers lsp' j \<noteq> Some c"
            using keeps(4) n by blast
          then have "chans lspF c = chans lsp' c" by (rule ih(3))
          also have "chans lsp' c = chans lsp c"
            using n by (intro keeps(5)) simp
          finally show ?thesis .
        qed
        from ih(1) sub out show ?thesis by blast
      qed
    qed
  qed
qed

lemma readMessages_not_stuck:
  "engine_inv lsp \<Longrightarrow> readMessages scan maxAlloc unm inp lsp \<noteq> Stuck lspS"
proof (induction scan maxAlloc unm inp lsp rule: readMessages.induct)
  case (1 scan maxAlloc unm inp lsp)
  note eq = readMessages.simps [of scan maxAlloc unm inp lsp]
  show ?case
  proof (cases "running lsp")
    case False
    then show ?thesis by (simp add: eq)
  next
    case True
    show ?thesis
    proof (cases "readFrame scan maxAlloc inp")
      case ReadError
      with True show ?thesis by (simp add: eq)
    next
      case ReadPanic
      with True show ?thesis by (simp add: eq)
    next
      case (Frame content rest)
      show ?thesis
      proof (cases "unm content")
        case None
        from "1.IH"(1) [OF _ Frame None "1.prems"] True Frame None show ?thesis
          by (simp add: eq)
      next
        case (Some msg)
        from dispatch_not_stopped [OF "1.prems", of msg content]
        obtain lsp' where d: "dispatch msg content lsp = Returned lsp'" by blast
        from "1.IH"(2) [OF _ Frame Some d dispatch_keeps(1) [OF "1.prems" d]] True Frame Some d
        show ?thesis by (simp add: eq)
      qed
    qed
  qed
qed

lemma await_blocks:
  "engine_inv lsp \<Longrightarrow> responseHandlers lsp i = Some ch \<Longrightarrow> SendRequest_await ch lsp = None"
  by (drule (1) engine_invD) (simp add: SendRequest_await_def chan_recv_def make_chan_def)

lemma engine_step_keeps_empty:
  assumes "chans lsp ch = make_chan" and "ch < nextChan lsp"
  shows "chans (engine_step op lsp) ch = make_chan \<and> ch < nextChan (engine_step op lsp) \<and>
         notificationChan (engine_step op lsp) = notificationChan lsp"
proof (cases op)
  case OpRegister
  with assms show ?thesis
    by (auto simp: SendRequest_register_def Let_def)
next
  case (OpWrite wr rid meth ps)
  with assms show ?thesis
    by (simp add: SendRequest_write_def writeMessage_def split: option.splits)
next
  case (OpNotify wr meth ps)
  with assms show ?thesis
    by (simp add: SendNotification_def writeMessage_def split: option.splits)
next
  case (OpAwait c)
  with assms show ?thesis
    by (auto simp: SendRequest_await_def chan_recv_def make_chan_def split: list.splits)
next
  case (OpShutdown ps)
  with assms show ?thesis
    by (simp add: shutdown_def)
qed

lemma engine_steps_keep_empty:
  "chans lsp ch = make_chan \<Longrightarrow> ch < nextChan lsp \<Longrightarrow>
     chans (engine_steps ops lsp) ch = make_chan \<and>
     notificationChan (engine_steps ops lsp) = notificationChan lsp"
proof (induction ops arbitrary: lsp)
  case Nil
  then show ?case by (simp add: engine_steps_def)
next
  case (Cons op ops)
  from engine_step_keeps_empty [OF Cons.prems, of op]
  have a: "chans (engine_step op lsp) ch = make_chan" "ch < nextChan (engine_step op lsp)"
    "notificationChan (engine_step op lsp) = notificationChan lsp"
    by simp_all
  from Cons.IH [OF a(1) a(2)] a(3) show ?case
    by (simp add: engine_steps_def)
qed

lemma await_blocks_for_ever:
  assumes "engine_inv lsp" and "responseHandlers lsp i = Some ch"
  shows "SendRequest_await ch (engine_steps ops lsp) = None"
proof -
  from engine_invD [OF assms] have "chans lsp ch = make_chan" "ch < nextChan lsp"
    by simp_all
  from engine_steps_keep_empty [OF this, of ops] show ?thesis
    by (simp add: SendRequest_await_def chan_recv_def make_chan_def)
qed

subsection \<open>Request ids\<close>



subsection \<open>The header block\<close>

lemma readHeaders_header_block:
  "readHeaders scan n0 inp =
     (case header_block inp of None \<Rightarrow> None | Some (ls, rest) \<Rightarrow> Some (declared scan ls n0, rest))"
proof (induction scan n0 inp rule: readHeaders.induct)
  case (1 scan n0 inp)
  show ?case
  proof (cases "ReadString LF inp")
    case None
    then show ?thesis
      by (simp add: readHeaders.simps [of scan n0 inp] header_block.simps [of inp])
  next
    case (Some a)
    obtain line rest where a: "a = (line, rest)" by (cases a)
    show ?thesis
    proof (cases "line = CRLF")
      case True
      with Some a show ?thesis
        by (simp add: readHeaders.simps [of scan n0 inp] header_block.simps [of inp] declared_def)
    next
      case False
      with "1.IH" [OF Some [unfolded a] refl False] Some a show ?thesis
        by (simp add: readHeaders.simps [of scan n0 inp] header_block.simps [of inp] declared_def
            split: option.splits)
    qed
  qed
qed

lemma declared_none: "\<forall>l\<in>set ls. scan l = None \<Longrightarrow> declared scan ls n0 = n0"
  by (induction ls) (simp_all add: declared_def)

subsection \<open>The sample engine\<close>

lemma sample_body_length: "length sample_body = 38"
  by (simp add: sample_body_def)

lemma started_eq: "started = NewLSPManager\<lparr>cmd := Some 1, running := True\<rparr>"
  by (simp add: started_def Start_def NewLSPManager_def)

lemma register_started: "SendRequest_register started = Inr (1, 0, one_pending)"
  by (simp add: one_pending_def started_eq SendRequest_register_def NewLSPManager_def Let_def)

lemma engine_inv_started: "engine_inv started"
  unfolding started_def by (rule engine_inv_Start [OF engine_inv_New])

lemma engine_inv_one_pending: "engine_inv one_pending"
  by (rule engine_inv_register [OF engine_inv_started register_started])

lemma one_pending_fields:
  "running one_pending" "responseHandlers one_pending = [1 \<mapsto> 0]"
  "chans one_pending 0 = make_chan" "notificationChan one_pending = make_chan"
  "messageID one_pending = 1" "nextChan one_pending = 1"
  by (simp_all add: one_pending_def started_eq SendRequest_register_def NewLSPManager_def Let_def)

subsection \<open>Unfolding the loops one step\<close>

lemma readHeaders_eof:
  "ReadString LF inp = None \<Longrightarrow> readHeaders scan n inp = None"
  by (subst readHeaders.simps) simp

lemma readHeaders_blank:
  "ReadString LF inp = Some (CRLF, rest) \<Longrightarrow> readHeaders scan n inp = Some (n, rest)"
  by (subst readHeaders.simps) simp

lemma readHeaders_line:
  "ReadString LF inp = Some (line, rest) \<Longrightarrow> line \<noteq> CRLF \<Longrightarrow>
     readHeaders scan n inp = readHeaders scan (case scan line of Some n' \<Rightarrow> n' | None \<Rightarrow> n) rest"
  by (subst readHeaders.simps) simp

lemma header_block_eof:
  "ReadString LF inp = None \<Longrightarrow> header_block inp = None"
  by (subst header_block.simps) simp

lemma header_block_blank:
  "ReadString LF inp = Some (CRLF, rest) \<Longrightarrow> header_block inp = Some ([], rest)"
  by (subst header_block.simps) simp

lemma header_block_line:
  "ReadString LF inp = Some (line, rest) \<Longrightarrow> line \<noteq> CRLF \<Longrightarrow>
     header_block inp = (case header_block rest of None \<Rightarrow> None | Some (ls, r) \<Rightarrow> Some (line # ls, r))"
  by (subst header_block.simps) simp

lemma readMessages_stopped:
  "\<not> running lsp \<Longrightarrow> readMessages scan maxAlloc unm inp lsp = Returned lsp"
  by (subst readMessages.simps) simp

lemma readMessages_error:
  "readFrame scan maxAlloc inp = ReadError \<Longrightarrow> readMessages scan maxAlloc unm inp lsp = Returned lsp"
  by (subst readMessages.simps) simp

lemma readMessages_panic:
  "running lsp \<Longrightarrow> readFrame scan maxAlloc inp = ReadPanic \<Longrightarrow>
     readMessages scan maxAlloc unm inp lsp = Crashed"
  by (subst readMessages.simps) simp

lemma readMessages_skip:
  "running lsp \<Longrightarrow> readFrame scan maxAlloc inp = Frame content rest \<Longrightarrow> unm content = None \<Longrightarrow>
     readMessages scan maxAlloc unm inp lsp = readMessages scan maxAlloc unm rest lsp"
  by (subst readMessages.simps) simp

lemma readMessages_frame:
  "running lsp \<Longrightarrow> readFrame scan maxAlloc inp = Frame content rest \<Longrightarrow> unm content = Some msg \<Longrightarrow>
     dispatch msg content lsp = Returned lsp' \<Longrightarrow>
     readMessages scan maxAlloc unm inp lsp = readMessages scan maxAlloc unm rest lsp'"
  by (subst readMessages.simps) simp

subsection \<open>Stopping the reader, shutting the engine down\<close>

text \<open>
  C2, as the specification states it, fails: an engine with one outstanding request
  whose reader meets the end of the child's output returns and leaves the request in the
  pending table with an empty, open channel, so the awaiting \<open>SendRequest\<close> stays blocked;
  the notification channel is not closed, so a forwarder reading it does not end. The
  same holds after \<open>shutdown\<close>.
\<close>

theorem reader_stop_counterexample:
  "readMessages sample_scan sample_maxAlloc sample_unmarshal [] one_pending = Returned one_pending \<and>
   responseHandlers one_pending 1 = Some 0 \<and>
   SendRequest_await 0 one_pending = None \<and>
   \<not> closed (notificationChan one_pending) \<and>
   \<not> snd (forwardNotifications (notificationChan one_pending) make_chan) \<and>
   responseHandlers (fst (shutdown one_pending [1 \<mapsto> [''clangd'']])) 1 = Some 0 \<and>
   SendRequest_await 0 (fst (shutdown one_pending [1 \<mapsto> [''clangd'']])) = None \<and>
   \<not> closed (notificationChan (fst (shutdown one_pending [1 \<mapsto> [''clangd'']])))"
  by (simp add: readMessages_error readFrame_def readHeaders_eof one_pending_fields
      SendRequest_await_def chan_recv_def make_chan_def forwardNotifications_def shutdown_def)

text \<open>
  C2, amended. When the reader returns, on a framing or output error or because the
  engine no longer runs, and when the engine is shut down, no outstanding request is
  completed with an error and no channel is closed. A reader that meets a read error
  returns with the engine unchanged, and \<open>shutdown\<close> only clears \<open>running\<close>. Afterwards
  the notification channel is open, so a forwarder on it has not ended, and every request
  in the pending table was pending before and its channel stays empty whatever the other
  tasks go on to do, so a caller waiting on it stays blocked. A request that was
  registered but not yet written when the engine is shut down does complete: its write
  fails with the not-running error, writes nothing and removes its entry.
\<close>

theorem stop_leaves_requests_pending:
  assumes "engine_inv lsp"
  shows "(readFrame scan maxAlloc inp = ReadError \<longrightarrow>
            readMessages scan maxAlloc unm inp lsp = Returned lsp) \<and>
         fst (shutdown lsp ps) = lsp\<lparr>running := False\<rparr> \<and>
         (\<forall>wr rid method params.
            SendRequest_write wr rid method params (fst (shutdown lsp ps)) =
            (Some NotRunning,
             lsp\<lparr>running := False, responseHandlers := (responseHandlers lsp)(rid := None)\<rparr>)) \<and>
         (\<forall>lsp'. readMessages scan maxAlloc unm inp lsp = Returned lsp' \<or> lsp' = fst (shutdown lsp ps) \<longrightarrow>
            \<not> closed (notificationChan lsp') \<and>
            \<not> snd (forwardNotifications (notificationChan lsp') merged) \<and>
            (\<forall>rid ch. responseHandlers lsp' rid = Some ch \<longrightarrow>
               responseHandlers lsp rid = Some ch \<and>
               (\<forall>ops. SendRequest_await ch (engine_steps ops lsp') = None \<and>
                      \<not> closed (notificationChan (engine_steps ops lsp')))))"
proof -
  have stop: "readFrame scan maxAlloc inp = ReadError \<longrightarrow>
      readMessages scan maxAlloc unm inp lsp = Returned lsp"
    by (rule impI) (rule readMessages_error)
  have sh: "fst (shutdown lsp ps) = lsp\<lparr>running := False\<rparr>"
    by (simp add: shutdown_def)
  have wr: "\<forall>wr rid method params.
      SendRequest_write wr rid method params (fst (shutdown lsp ps)) =
      (Some NotRunning,
       lsp\<lparr>running := False, responseHandlers := (responseHandlers lsp)(rid := None)\<rparr>)"
    by (simp add: sh SendRequest_write_def writeMessage_def)
  have each: "\<not> closed (notificationChan lsp') \<and>
            \<not> snd (forwardNotifications (notificationChan lsp') merged) \<and>
            (\<forall>rid ch. responseHandlers lsp' rid = Some ch \<longrightarrow>
               responseHandlers lsp rid = Some ch \<and>
               (\<forall>ops. SendRequest_await ch (engine_steps ops lsp') = None \<and>
                      \<not> closed (notificationChan (engine_steps ops lsp'))))"
    if inv: "engine_inv lsp'"
      and sub: "\<And>rid ch. responseHandlers lsp' rid = Some ch \<Longrightarrow> responseHandlers lsp rid = Some ch"
    for lsp'
  proof (intro conjI allI impI)
    show op: "\<not> closed (notificationChan lsp')"
      by (rule engine_inv_open [OF inv])
    then show "\<not> snd (forwardNotifications (notificationChan lsp') merged)"
      by (simp add: forwardNotifications_def)
    fix rid ch ops
    assume h: "responseHandlers lsp' rid = Some ch"
    show "responseHandlers lsp rid = Some ch" by (rule sub [OF h])
    show "SendRequest_await ch (engine_steps ops lsp') = None"
      by (rule await_blocks_for_ever [OF inv h])
    from engine_invD [OF inv h] have "chans lsp' ch = make_chan" "ch < nextChan lsp'"
      by simp_all
    from engine_steps_keep_empty [OF this, of ops] op
    show "\<not> closed (notificationChan (engine_steps ops lsp'))" by simp
  qed
  have sd: "engine_inv (fst (shutdown lsp ps))"
    by (rule engine_inv_shutdown [OF assms])
  have sdsub: "\<And>rid ch. responseHandlers (fst (shutdown lsp ps)) rid = Some ch \<Longrightarrow>
        responseHandlers lsp rid = Some ch"
    by (simp add: sh)
  have third: "\<forall>lsp'. readMessages scan maxAlloc unm inp lsp = Returned lsp' \<or> lsp' = fst (shutdown lsp ps) \<longrightarrow>
            \<not> closed (notificationChan lsp') \<and>
            \<not> snd (forwardNotifications (notificationChan lsp') merged) \<and>
            (\<forall>rid ch. responseHandlers lsp' rid = Some ch \<longrightarrow>
               responseHandlers lsp rid = Some ch \<and>
               (\<forall>ops. SendRequest_await ch (engine_steps ops lsp') = None \<and>
                      \<not> closed (notificationChan (engine_steps ops lsp'))))"
  proof (rule allI, rule impI)
    fix lsp'
    assume "readMessages scan maxAlloc unm inp lsp = Returned lsp' \<or> lsp' = fst (shutdown lsp ps)"
    then show "\<not> closed (notificationChan lsp') \<and>
            \<not> snd (forwardNotifications (notificationChan lsp') merged) \<and>
            (\<forall>rid ch. responseHandlers lsp' rid = Some ch \<longrightarrow>
               responseHandlers lsp rid = Some ch \<and>
               (\<forall>ops. SendRequest_await ch (engine_steps ops lsp') = None \<and>
                      \<not> closed (notificationChan (engine_steps ops lsp'))))"
    proof
      assume r: "readMessages scan maxAlloc unm inp lsp = Returned lsp'"
      from readMessages_keeps [OF assms r]
      have "engine_inv lsp'"
        "\<And>rid ch. responseHandlers lsp' rid = Some ch \<Longrightarrow> responseHandlers lsp rid = Some ch"
        by blast+
      then show ?thesis by (rule each)
    next
      assume "lsp' = fst (shutdown lsp ps)"
      with each [OF sd sdsub] show ?thesis by simp
    qed
  qed
  show ?thesis
    by (rule conjI [OF stop conjI [OF sh conjI [OF wr third]]])
qed

theorem stop_leaves_requests_pending_witness:
  "readMessages sample_scan sample_maxAlloc sample_unmarshal ''Content-Len'' one_pending = Returned one_pending \<and>
   responseHandlers (fst (shutdown one_pending [1 \<mapsto> [''clangd'']])) 1 = Some 0 \<and>
   SendRequest_await 0
     (engine_steps [OpRegister, OpAwait 0] (fst (shutdown one_pending [1 \<mapsto> [''clangd'']]))) = None \<and>
   fst (SendRequest_write None 1 ''initialize'' JNull
          (fst (shutdown one_pending [1 \<mapsto> [''clangd'']]))) = Some NotRunning"
proof -
  have rs: "ReadString LF ''Content-Len'' = None"
    by simp
  have err: "readFrame sample_scan sample_maxAlloc ''Content-Len'' = ReadError"
    unfolding readFrame_def readHeaders_eof [OF rs] by simp
  have h: "responseHandlers one_pending 1 = Some 0"
    by (simp add: one_pending_fields)
  note w = stop_leaves_requests_pending [OF engine_inv_one_pending,
        of sample_scan sample_maxAlloc "''Content-Len''" sample_unmarshal "[1 \<mapsto> [''clangd'']]" make_chan]
  have a: "readMessages sample_scan sample_maxAlloc sample_unmarshal ''Content-Len'' one_pending =
      Returned one_pending"
    by (rule w [THEN conjunct1, THEN mp, OF err])
  have sh: "fst (shutdown one_pending [1 \<mapsto> [''clangd'']]) = one_pending\<lparr>running := False\<rparr>"
    by (rule w [THEN conjunct2, THEN conjunct1])
  have b: "responseHandlers (fst (shutdown one_pending [1 \<mapsto> [''clangd'']])) 1 = Some 0"
    by (simp only: sh) (simp add: h)
  have c: "SendRequest_await 0
     (engine_steps [OpRegister, OpAwait 0] (fst (shutdown one_pending [1 \<mapsto> [''clangd'']]))) = None"
    using w [THEN conjunct2, THEN conjunct2, THEN conjunct2, THEN spec,
             of "fst (shutdown one_pending [1 \<mapsto> [''clangd'']])"] b
    by blast
  have d: "fst (SendRequest_write None 1 ''initialize'' JNull
          (fst (shutdown one_pending [1 \<mapsto> [''clangd'']]))) = Some NotRunning"
    using w [THEN conjunct2, THEN conjunct2, THEN conjunct1, THEN spec, THEN spec, THEN spec, THEN spec,
             of None 1 "''initialize''" JNull]
    by simp
  show ?thesis
    by (rule conjI [OF a conjI [OF b conjI [OF c d]]])
qed

subsection \<open>Correlation of responses\<close>

text \<open>
  C3, as the specification states it, fails for a frame that arrives once the engine
  has been shut down: the reader tests \<open>running\<close> before it reads, so with a request
  pending under id 1 and a well-formed response with id 1 waiting in the child's output,
  the reader returns without reading it; the entry stays in the table and the awaiter is
  not woken.
\<close>

theorem stopped_reader_counterexample:
  "readFrame sample_scan sample_maxAlloc (''Content-Length: 38'' @ CRLF @ CRLF @ sample_body) =
     Frame sample_body [] \<and>
   sample_unmarshal sample_body = Some \<lparr>ID = Some 1, Method = []\<rparr> \<and>
   responseHandlers (fst (shutdown one_pending [1 \<mapsto> [''clangd'']])) 1 = Some 0 \<and>
   readMessages sample_scan sample_maxAlloc sample_unmarshal
     (''Content-Length: 38'' @ CRLF @ CRLF @ sample_body)
     (fst (shutdown one_pending [1 \<mapsto> [''clangd'']])) =
     Returned (fst (shutdown one_pending [1 \<mapsto> [''clangd'']])) \<and>
   SendRequest_await 0 (fst (shutdown one_pending [1 \<mapsto> [''clangd'']])) = None"
proof -
  let ?frame = "''Content-Length: 38'' @ CRLF @ CRLF @ sample_body"
  let ?off = "fst (shutdown one_pending [1 \<mapsto> [''clangd'']])"
  have sc1: "sample_scan (''Content-Length: 38'' @ CRLF) = Some 38"
    by (simp add: sample_scan_def)
  have "readHeaders sample_scan 0 ?frame =
      readHeaders sample_scan (case sample_scan (''Content-Length: 38'' @ CRLF) of
         Some n' \<Rightarrow> n' | None \<Rightarrow> 0) (CRLF @ sample_body)"
    by (rule readHeaders_line) simp_all
  also have "\<dots> = Some (38, sample_body)"
    using sc1 by (simp add: readHeaders_blank)
  finally have h2: "readHeaders sample_scan 0 ?frame = Some (38, sample_body)" .
  have a: "readFrame sample_scan sample_maxAlloc ?frame = Frame sample_body []"
    unfolding readFrame_def h2
    by (simp add: ReadFull_def sample_body_length sample_maxAlloc_def)
  have b: "sample_unmarshal sample_body = Some \<lparr>ID = Some 1, Method = []\<rparr>"
    by (simp add: sample_unmarshal_def)
  have off: "?off = one_pending\<lparr>running := False\<rparr>"
    by (simp add: shutdown_def)
  have c: "responseHandlers ?off 1 = Some 0"
    unfolding off by (simp add: one_pending_fields)
  have "\<not> running ?off"
    unfolding off by simp
  then have d: "readMessages sample_scan sample_maxAlloc sample_unmarshal ?frame ?off = Returned ?off"
    by (rule readMessages_stopped)
  have e: "SendRequest_await 0 ?off = None"
    unfolding off
    by (simp add: SendRequest_await_def chan_recv_def one_pending_fields make_chan_def)
  show ?thesis
    by (rule conjI [OF a conjI [OF b conjI [OF c conjI [OF d e]]]])
qed

text \<open>
  C3, amended. For every frame that the reader reads, which it does only while the
  engine is marked running, and whose body parses with an id: when the id matches a
  pending entry, the reader goes on with an engine in which the whole body has been put
  on the channel of that entry and on no other, the entry is removed, and every other
  entry and the notification channel are as before; no other pending id shares the
  channel, the awaiter of the channel receives exactly the body, and when the reader has
  returned the id is still absent and the channel still holds the body once. When the id
  matches no entry, the reader goes on with the engine unchanged.
\<close>

theorem reader_delivers_response:
  assumes "engine_inv lsp" and "running lsp"
    and "readFrame scan maxAlloc inp = Frame content rest"
    and "unm content = Some msg" and "ID msg = Some i"
  shows "(\<forall>ch. responseHandlers lsp i = Some ch \<longrightarrow>
           (\<exists>lsp'. readMessages scan maxAlloc unm inp lsp = readMessages scan maxAlloc unm rest lsp' \<and>
              responseHandlers lsp' = (responseHandlers lsp)(i := None) \<and>
              chans lsp' = (chans lsp)(ch := \<lparr>buf = [content], closed = False\<rparr>) \<and>
              (\<forall>j. j \<noteq> i \<longrightarrow> responseHandlers lsp j \<noteq> Some ch) \<and>
              notificationChan lsp' = notificationChan lsp \<and>
              SendRequest_await ch lsp' =
                Some (content, lsp'\<lparr>chans := (chans lsp')(ch := make_chan)\<rparr>) \<and>
              (\<forall>lspF. readMessages scan maxAlloc unm inp lsp = Returned lspF \<longrightarrow>
                 responseHandlers lspF i = None \<and>
                 chans lspF ch = \<lparr>buf = [content], closed = False\<rparr>))) \<and>
         (responseHandlers lsp i = None \<longrightarrow>
            readMessages scan maxAlloc unm inp lsp = readMessages scan maxAlloc unm rest lsp)"
proof (rule conjI)
  show "responseHandlers lsp i = None \<longrightarrow>
      readMessages scan maxAlloc unm inp lsp = readMessages scan maxAlloc unm rest lsp"
  proof
    assume "responseHandlers lsp i = None"
    with assms(5) have "dispatch msg content lsp = Returned lsp"
      by (simp add: dispatch_def)
    then show "readMessages scan maxAlloc unm inp lsp = readMessages scan maxAlloc unm rest lsp"
      by (rule readMessages_frame [where unm = unm, OF assms(2) assms(3) assms(4)])
  qed
next
  show "\<forall>ch. responseHandlers lsp i = Some ch \<longrightarrow>
           (\<exists>lsp'. readMessages scan maxAlloc unm inp lsp = readMessages scan maxAlloc unm rest lsp' \<and>
              responseHandlers lsp' = (responseHandlers lsp)(i := None) \<and>
              chans lsp' = (chans lsp)(ch := \<lparr>buf = [content], closed = False\<rparr>) \<and>
              (\<forall>j. j \<noteq> i \<longrightarrow> responseHandlers lsp j \<noteq> Some ch) \<and>
              notificationChan lsp' = notificationChan lsp \<and>
              SendRequest_await ch lsp' =
                Some (content, lsp'\<lparr>chans := (chans lsp')(ch := make_chan)\<rparr>) \<and>
              (\<forall>lspF. readMessages scan maxAlloc unm inp lsp = Returned lspF \<longrightarrow>
                 responseHandlers lspF i = None \<and>
                 chans lspF ch = \<lparr>buf = [content], closed = False\<rparr>))"
  proof (rule allI, rule impI)
    fix ch
    assume h: "responseHandlers lsp i = Some ch"
    have c: "chans lsp ch = make_chan"
      using engine_invD [OF assms(1) h] by simp
    let ?lsp' = "lsp\<lparr>chans := (chans lsp)(ch := \<lparr>buf = [content], closed = False\<rparr>),
                     responseHandlers := (responseHandlers lsp)(i := None)\<rparr>"
    have d: "dispatch msg content lsp = Returned ?lsp'"
      using assms(5) h c by (simp add: dispatch_def make_chan_def)
    have step: "readMessages scan maxAlloc unm inp lsp = readMessages scan maxAlloc unm rest ?lsp'"
      by (rule readMessages_frame [where unm = unm, OF assms(2) assms(3) assms(4) d])
    have others: "\<forall>j. j \<noteq> i \<longrightarrow> responseHandlers lsp j \<noteq> Some ch"
      using engine_inv_inj [OF assms(1) h] by blast
    have aw: "SendRequest_await ch ?lsp' =
        Some (content, ?lsp'\<lparr>chans := (chans ?lsp')(ch := make_chan)\<rparr>)"
      by (simp add: SendRequest_await_def chan_recv_def make_chan_def)
    have inv': "engine_inv ?lsp'"
      by (rule dispatch_keeps(1) [OF assms(1) d])
    have gone: "\<And>j. responseHandlers ?lsp' j \<noteq> Some ch"
      using others h by (simp add: fun_upd_def)
    have fin: "\<forall>lspF. readMessages scan maxAlloc unm inp lsp = Returned lspF \<longrightarrow>
        responseHandlers lspF i = None \<and> chans lspF ch = \<lparr>buf = [content], closed = False\<rparr>"
    proof (rule allI, rule impI)
      fix lspF
      assume "readMessages scan maxAlloc unm inp lsp = Returned lspF"
      then have r: "readMessages scan maxAlloc unm rest ?lsp' = Returned lspF"
        by (simp only: step)
      note k = readMessages_keeps [OF inv' r]
      have "responseHandlers lspF i = None"
      proof (cases "responseHandlers lspF i")
        case None
        then show ?thesis .
      next
        case (Some c')
        with k have "responseHandlers ?lsp' i = Some c'" by blast
        then show ?thesis by simp
      qed
      moreover have "chans lspF ch = chans ?lsp' ch"
        using k gone by blast
      ultimately show "responseHandlers lspF i = None \<and>
          chans lspF ch = \<lparr>buf = [content], closed = False\<rparr>"
        by simp
    qed
    show "\<exists>lsp'. readMessages scan maxAlloc unm inp lsp = readMessages scan maxAlloc unm rest lsp' \<and>
              responseHandlers lsp' = (responseHandlers lsp)(i := None) \<and>
              chans lsp' = (chans lsp)(ch := \<lparr>buf = [content], closed = False\<rparr>) \<and>
              (\<forall>j. j \<noteq> i \<longrightarrow> responseHandlers lsp j \<noteq> Some ch) \<and>
              notificationChan lsp' = notificationChan lsp \<and>
              SendRequest_await ch lsp' =
                Some (content, lsp'\<lparr>chans := (chans lsp')(ch := make_chan)\<rparr>) \<and>
              (\<forall>lspF. readMessages scan maxAlloc unm inp lsp = Returned lspF \<longrightarrow>
                 responseHandlers lspF i = None \<and>
                 chans lspF ch = \<lparr>buf = [content], closed = False\<rparr>)"
    proof (rule exI [of _ ?lsp'], intro conjI)
      show "readMessages scan maxAlloc unm inp lsp = readMessages scan maxAlloc unm rest ?lsp'"
        by (rule step)
      show "responseHandlers ?lsp' = (responseHandlers lsp)(i := None)" by simp
      show "chans ?lsp' = (chans lsp)(ch := \<lparr>buf = [content], closed = False\<rparr>)" by simp
      show "\<forall>j. j \<noteq> i \<longrightarrow> responseHandlers lsp j \<noteq> Some ch" by (rule others)
      show "notificationChan ?lsp' = notificationChan lsp" by simp
      show "SendRequest_await ch ?lsp' =
          Some (content, ?lsp'\<lparr>chans := (chans ?lsp')(ch := make_chan)\<rparr>)" by (rule aw)
      show "\<forall>lspF. readMessages scan maxAlloc unm inp lsp = Returned lspF \<longrightarrow>
          responseHandlers lspF i = None \<and> chans lspF ch = \<lparr>buf = [content], closed = False\<rparr>"
        by (rule fin)
    qed
  qed
qed

theorem reader_delivers_response_witness:
  "(\<exists>lspF. readMessages sample_scan sample_maxAlloc sample_unmarshal
       (''Content-Length: 38'' @ CRLF @ CRLF @ sample_body) one_pending = Returned lspF \<and>
     responseHandlers lspF 1 = None \<and>
     SendRequest_await 0 lspF = Some (sample_body, lspF\<lparr>chans := (chans lspF)(0 := make_chan)\<rparr>))"
proof -
  let ?frame = "''Content-Length: 38'' @ CRLF @ CRLF @ sample_body"
  have sc1: "sample_scan (''Content-Length: 38'' @ CRLF) = Some 38"
    by (simp add: sample_scan_def)
  have "readHeaders sample_scan 0 ?frame =
      readHeaders sample_scan (case sample_scan (''Content-Length: 38'' @ CRLF) of
         Some n' \<Rightarrow> n' | None \<Rightarrow> 0) (CRLF @ sample_body)"
    by (rule readHeaders_line) simp_all
  also have "\<dots> = Some (38, sample_body)"
    using sc1 by (simp add: readHeaders_blank)
  finally have h2: "readHeaders sample_scan 0 ?frame = Some (38, sample_body)" .
  have f: "readFrame sample_scan sample_maxAlloc ?frame = Frame sample_body []"
    unfolding readFrame_def h2
    by (simp add: ReadFull_def sample_body_length sample_maxAlloc_def)
  have u: "sample_unmarshal sample_body = Some \<lparr>ID = Some 1, Method = []\<rparr>"
    by (simp add: sample_unmarshal_def)
  have h: "responseHandlers one_pending 1 = Some 0"
    by (simp add: one_pending_fields)
  from reader_delivers_response [where unm = sample_unmarshal, OF engine_inv_one_pending
      one_pending_fields(1) f u, of 1, THEN conjunct1, THEN spec, THEN mp, OF _ h]
  obtain lsp' where
    step: "readMessages sample_scan sample_maxAlloc sample_unmarshal ?frame one_pending =
       readMessages sample_scan sample_maxAlloc sample_unmarshal [] lsp'"
    and fin: "\<forall>lspF. readMessages sample_scan sample_maxAlloc sample_unmarshal ?frame one_pending =
        Returned lspF \<longrightarrow>
        responseHandlers lspF 1 = None \<and> chans lspF 0 = \<lparr>buf = [sample_body], closed = False\<rparr>"
    by auto
  have "readMessages sample_scan sample_maxAlloc sample_unmarshal [] lsp' = Returned lsp'"
    by (rule readMessages_error) (simp add: readFrame_def readHeaders_eof)
  with step have r: "readMessages sample_scan sample_maxAlloc sample_unmarshal ?frame one_pending =
      Returned lsp'" by simp
  with fin have "responseHandlers lsp' 1 = None" "chans lsp' 0 = \<lparr>buf = [sample_body], closed = False\<rparr>"
    by blast+
  then have "responseHandlers lsp' 1 = None \<and>
     SendRequest_await 0 lsp' = Some (sample_body, lsp'\<lparr>chans := (chans lsp')(0 := make_chan)\<rparr>)"
    by (simp add: SendRequest_await_def chan_recv_def make_chan_def)
  with r show ?thesis by blast
qed

subsection \<open>Request ids are allocated in increasing order\<close>



section \<open>Properties of the frame codec\<close>

text \<open>
  C5, as the specification states it, fails. A header block with no \<open>Content-Length\<close>
  line, and one whose \<open>Content-Length\<close> is not an integer, are accepted as declaring the
  length zero: the decoder yields an empty body and the reader goes on to the next frame,
  whose response is delivered. No maximum is checked either: a frame of 32 MiB is read
  whole, and a declared length above what can be allocated makes the process panic in
  \<^verbatim>\<open>make\<close> instead of ending the reader with an error.
\<close>

theorem missing_content_length_counterexample:
  "readFrame sample_scan sample_maxAlloc CRLF = Frame [] [] \<and>
   readFrame sample_scan sample_maxAlloc (''Content-Length: abc'' @ CRLF @ CRLF) = Frame [] [] \<and>
   (\<exists>lspF. readMessages sample_scan sample_maxAlloc sample_unmarshal
        (CRLF @ ''Content-Length: 38'' @ CRLF @ CRLF @ sample_body) one_pending = Returned lspF \<and>
      SendRequest_await 0 lspF = Some (sample_body, lspF\<lparr>chans := (chans lspF)(0 := make_chan)\<rparr>)) \<and>
   readFrame sample_scan sample_maxAlloc
     (''Content-Length: 33554432'' @ CRLF @ CRLF @ replicate 33554432 (CHR ''x'')) =
     Frame (replicate 33554432 (CHR ''x'')) [] \<and>
   readFrame sample_scan sample_maxAlloc (''Content-Length: 281474976710657'' @ CRLF @ CRLF) = ReadPanic \<and>
   readMessages sample_scan sample_maxAlloc sample_unmarshal
     (''Content-Length: 281474976710657'' @ CRLF @ CRLF) one_pending = Crashed"
proof -
  have h0: "readHeaders sample_scan n CRLF = Some (n, [])" for n
    by (rule readHeaders_blank) simp
  have a: "readFrame sample_scan sample_maxAlloc CRLF = Frame [] []"
    unfolding readFrame_def h0 by (simp add: ReadFull_def sample_maxAlloc_def)
  have sc0: "sample_scan (''Content-Length: abc'' @ CRLF) = None"
    and sc1: "sample_scan (''Content-Length: 38'' @ CRLF) = Some 38"
    and sc2: "sample_scan (''Content-Length: 33554432'' @ CRLF) = Some 33554432"
    and sc3: "sample_scan (''Content-Length: 281474976710657'' @ CRLF) = Some 281474976710657"
    by (simp_all add: sample_scan_def)
  have "readHeaders sample_scan 0 (''Content-Length: abc'' @ CRLF @ CRLF) =
      readHeaders sample_scan (case sample_scan (''Content-Length: abc'' @ CRLF) of
         Some n' \<Rightarrow> n' | None \<Rightarrow> 0) CRLF"
    by (rule readHeaders_line) simp_all
  also have "\<dots> = Some (0, [])"
    using sc0 by (simp add: h0)
  finally have hb: "readHeaders sample_scan 0 (''Content-Length: abc'' @ CRLF @ CRLF) = Some (0, [])" .
  have b: "readFrame sample_scan sample_maxAlloc (''Content-Length: abc'' @ CRLF @ CRLF) = Frame [] []"
    unfolding readFrame_def hb by (simp add: ReadFull_def sample_maxAlloc_def)
  let ?frame = "''Content-Length: 38'' @ CRLF @ CRLF @ sample_body"
  have h1: "readHeaders sample_scan 0 (CRLF @ ?frame) = Some (0, ?frame)"
    by (rule readHeaders_blank) simp
  have f1: "readFrame sample_scan sample_maxAlloc (CRLF @ ?frame) = Frame [] ?frame"
    unfolding readFrame_def h1 by (simp add: ReadFull_def sample_maxAlloc_def)
  have "readHeaders sample_scan 0 ?frame =
      readHeaders sample_scan (case sample_scan (''Content-Length: 38'' @ CRLF) of
         Some n' \<Rightarrow> n' | None \<Rightarrow> 0) (CRLF @ sample_body)"
    by (rule readHeaders_line) simp_all
  also have "\<dots> = Some (38, sample_body)"
    using sc1 by (simp add: readHeaders_blank)
  finally have h2: "readHeaders sample_scan 0 ?frame = Some (38, sample_body)" .
  have f2: "readFrame sample_scan sample_maxAlloc ?frame = Frame sample_body []"
    unfolding readFrame_def h2
    by (simp add: ReadFull_def sample_body_length sample_maxAlloc_def)
  let ?msg = "\<lparr>ID = Some 1, Method = []\<rparr>"
  let ?done = "one_pending\<lparr>chans := (chans one_pending)(0 := \<lparr>buf = [sample_body], closed = False\<rparr>),
                   responseHandlers := (responseHandlers one_pending)(1 := None)\<rparr>"
  have d: "dispatch ?msg sample_body one_pending = Returned ?done"
    by (simp add: dispatch_def one_pending_fields make_chan_def)
  have u0: "sample_unmarshal [] = None"
    by (simp add: sample_unmarshal_def sample_body_def)
  have u1: "sample_unmarshal sample_body = Some ?msg"
    by (simp add: sample_unmarshal_def)
  have "readMessages sample_scan sample_maxAlloc sample_unmarshal (CRLF @ ?frame) one_pending =
      readMessages sample_scan sample_maxAlloc sample_unmarshal ?frame one_pending"
    by (rule readMessages_skip [where unm = sample_unmarshal, OF one_pending_fields(1) f1 u0])
  also have "\<dots> = readMessages sample_scan sample_maxAlloc sample_unmarshal [] ?done"
    by (rule readMessages_frame [where unm = sample_unmarshal, OF one_pending_fields(1) f2 u1 d])
  also have "\<dots> = Returned ?done"
    by (rule readMessages_error) (simp add: readFrame_def readHeaders_eof)
  finally have r: "readMessages sample_scan sample_maxAlloc sample_unmarshal (CRLF @ ?frame) one_pending =
      Returned ?done" .
  have "SendRequest_await 0 ?done = Some (sample_body, ?done\<lparr>chans := (chans ?done)(0 := make_chan)\<rparr>)"
    by (simp add: SendRequest_await_def chan_recv_def make_chan_def)
  with r have c: "\<exists>lspF. readMessages sample_scan sample_maxAlloc sample_unmarshal
        (CRLF @ ?frame) one_pending = Returned lspF \<and>
      SendRequest_await 0 lspF = Some (sample_body, lspF\<lparr>chans := (chans lspF)(0 := make_chan)\<rparr>)"
    by blast
  let ?big = "replicate 33554432 (CHR ''x'')"
  have "readHeaders sample_scan 0 (''Content-Length: 33554432'' @ CRLF @ CRLF @ ?big) =
      readHeaders sample_scan (case sample_scan (''Content-Length: 33554432'' @ CRLF) of
         Some n' \<Rightarrow> n' | None \<Rightarrow> 0) (CRLF @ ?big)"
    by (rule readHeaders_line) simp_all
  also have "\<dots> = Some (33554432, ?big)"
    using sc2 by (simp add: readHeaders_blank)
  finally have h3: "readHeaders sample_scan 0 (''Content-Length: 33554432'' @ CRLF @ CRLF @ ?big) =
      Some (33554432, ?big)" .
  have e: "readFrame sample_scan sample_maxAlloc (''Content-Length: 33554432'' @ CRLF @ CRLF @ ?big) =
      Frame ?big []"
    unfolding readFrame_def h3 by (simp add: ReadFull_def sample_maxAlloc_def)
  have "readHeaders sample_scan 0 (''Content-Length: 281474976710657'' @ CRLF @ CRLF) =
      readHeaders sample_scan (case sample_scan (''Content-Length: 281474976710657'' @ CRLF) of
         Some n' \<Rightarrow> n' | None \<Rightarrow> 0) CRLF"
    by (rule readHeaders_line) simp_all
  also have "\<dots> = Some (281474976710657, [])"
    using sc3 by (simp add: h0)
  finally have h4: "readHeaders sample_scan 0 (''Content-Length: 281474976710657'' @ CRLF @ CRLF) =
      Some (281474976710657, [])" .
  have f: "readFrame sample_scan sample_maxAlloc (''Content-Length: 281474976710657'' @ CRLF @ CRLF) =
      ReadPanic"
    unfolding readFrame_def h4 by (simp add: sample_maxAlloc_def)
  have g: "readMessages sample_scan sample_maxAlloc sample_unmarshal
     (''Content-Length: 281474976710657'' @ CRLF @ CRLF) one_pending = Crashed"
    by (rule readMessages_panic [OF one_pending_fields(1) f])
  show ?thesis
    by (rule conjI [OF a conjI [OF b conjI [OF c conjI [OF e conjI [OF f g]]]]])
qed

text \<open>
  C5, amended. The decoder fails, without reading a body, when the stream ends inside
  the header block, and the reader then returns. A header block in which no line scans
  as a \<open>Content-Length\<close> (the header is missing or is not an integer) is not rejected: the
  declared length is zero, the body is empty, and the reader, for which an empty body
  does not parse, goes on to the frame after the blank line. No maximum is checked:
  every declared length from zero up to what can be allocated is accepted, and the body
  is read when the stream holds that many bytes.
\<close>

theorem decoder_accepts_missing_length:
  assumes "0 \<le> maxAlloc"
  shows "(header_block inp = None \<longrightarrow>
            readFrame scan maxAlloc inp = ReadError \<and>
            readMessages scan maxAlloc unm inp lsp = Returned lsp) \<and>
         (\<forall>ls rest. header_block inp = Some (ls, rest) \<and> (\<forall>l\<in>set ls. scan l = None) \<longrightarrow>
            readFrame scan maxAlloc inp = Frame [] rest \<and>
            (running lsp \<and> unm [] = None \<longrightarrow>
               readMessages scan maxAlloc unm inp lsp = readMessages scan maxAlloc unm rest lsp)) \<and>
         (\<forall>ls rest. header_block inp = Some (ls, rest) \<and>
              0 \<le> declared scan ls 0 \<and> declared scan ls 0 \<le> maxAlloc \<and>
              nat (declared scan ls 0) \<le> length rest \<longrightarrow>
            readFrame scan maxAlloc inp =
              Frame (take (nat (declared scan ls 0)) rest) (drop (nat (declared scan ls 0)) rest))"
proof (intro conjI allI impI)
  assume "header_block inp = None"
  then show e: "readFrame scan maxAlloc inp = ReadError"
    by (simp add: readFrame_def readHeaders_header_block)
  then show "readMessages scan maxAlloc unm inp lsp = Returned lsp"
    by (rule readMessages_error)
next
  fix ls rest
  assume a: "header_block inp = Some (ls, rest) \<and> (\<forall>l\<in>set ls. scan l = None)"
  then have "declared scan ls 0 = 0"
    by (simp add: declared_none)
  with a assms show f: "readFrame scan maxAlloc inp = Frame [] rest"
    by (simp add: readFrame_def readHeaders_header_block ReadFull_def)
  assume "running lsp \<and> unm [] = None"
  then show "readMessages scan maxAlloc unm inp lsp = readMessages scan maxAlloc unm rest lsp"
    using f by (intro readMessages_skip [where content = "[]"]) simp_all
next
  fix ls rest
  assume "header_block inp = Some (ls, rest) \<and>
      0 \<le> declared scan ls 0 \<and> declared scan ls 0 \<le> maxAlloc \<and>
      nat (declared scan ls 0) \<le> length rest"
  then show "readFrame scan maxAlloc inp =
      Frame (take (nat (declared scan ls 0)) rest) (drop (nat (declared scan ls 0)) rest)"
    by (simp add: readFrame_def readHeaders_header_block ReadFull_def)
qed

theorem decoder_accepts_missing_length_witness:
  "readFrame sample_scan sample_maxAlloc ''Content-Len'' = ReadError \<and>
   readMessages sample_scan sample_maxAlloc sample_unmarshal ''Content-Len'' one_pending =
     Returned one_pending \<and>
   readFrame sample_scan sample_maxAlloc (''Content-Type: x'' @ CRLF @ CRLF @ ''{}'') = Frame [] ''{}'' \<and>
   readMessages sample_scan sample_maxAlloc sample_unmarshal
     (''Content-Type: x'' @ CRLF @ CRLF @ ''{}'') one_pending =
     readMessages sample_scan sample_maxAlloc sample_unmarshal ''{}'' one_pending \<and>
   readFrame sample_scan sample_maxAlloc (''Content-Length: 38'' @ CRLF @ CRLF @ sample_body) =
     Frame sample_body []"
proof -
  have m: "0 \<le> sample_maxAlloc"
    by (simp add: sample_maxAlloc_def)
  have a: "header_block ''Content-Len'' = None"
    by (rule header_block_eof) simp
  have "header_block (''Content-Type: x'' @ CRLF @ CRLF @ ''{}'') =
      (case header_block (CRLF @ ''{}'') of None \<Rightarrow> None
       | Some (ls, r) \<Rightarrow> Some ((''Content-Type: x'' @ CRLF) # ls, r))"
    by (rule header_block_line) simp_all
  also have "header_block (CRLF @ ''{}'') = Some ([], ''{}'')"
    by (rule header_block_blank) simp
  finally have b: "header_block (''Content-Type: x'' @ CRLF @ CRLF @ ''{}'') =
      Some ([''Content-Type: x'' @ CRLF], ''{}'')"
    by simp
  have c: "\<forall>l\<in>set [''Content-Type: x'' @ CRLF]. sample_scan l = None"
    by (simp add: sample_scan_def)
  have "header_block (''Content-Length: 38'' @ CRLF @ CRLF @ sample_body) =
      (case header_block (CRLF @ sample_body) of None \<Rightarrow> None
       | Some (ls, r) \<Rightarrow> Some ((''Content-Length: 38'' @ CRLF) # ls, r))"
    by (rule header_block_line) simp_all
  also have "header_block (CRLF @ sample_body) = Some ([], sample_body)"
    by (rule header_block_blank) simp
  finally have d: "header_block (''Content-Length: 38'' @ CRLF @ CRLF @ sample_body) =
      Some ([''Content-Length: 38'' @ CRLF], sample_body)"
    by simp
  have dl: "declared sample_scan [''Content-Length: 38'' @ CRLF] 0 = 38"
    by (simp add: declared_def sample_scan_def)
  have u0: "running one_pending \<and> sample_unmarshal [] = None"
    by (simp add: one_pending_fields sample_unmarshal_def sample_body_def)
  note w = decoder_accepts_missing_length [OF m, of _ sample_scan sample_unmarshal one_pending]
  have r1: "readFrame sample_scan sample_maxAlloc ''Content-Len'' = ReadError \<and>
     readMessages sample_scan sample_maxAlloc sample_unmarshal ''Content-Len'' one_pending =
       Returned one_pending"
    by (rule w [THEN conjunct1, THEN mp, OF a])
  note w2 = w [THEN conjunct2, THEN conjunct1, THEN spec, THEN spec, THEN mp, OF conjI [OF b c]]
  have r2: "readFrame sample_scan sample_maxAlloc (''Content-Type: x'' @ CRLF @ CRLF @ ''{}'') =
      Frame [] ''{}''"
    by (rule w2 [THEN conjunct1])
  have r3: "readMessages sample_scan sample_maxAlloc sample_unmarshal
     (''Content-Type: x'' @ CRLF @ CRLF @ ''{}'') one_pending =
     readMessages sample_scan sample_maxAlloc sample_unmarshal ''{}'' one_pending"
    by (rule w2 [THEN conjunct2, THEN mp, OF u0])
  have pre: "header_block (''Content-Length: 38'' @ CRLF @ CRLF @ sample_body) =
        Some ([''Content-Length: 38'' @ CRLF], sample_body) \<and>
      0 \<le> declared sample_scan [''Content-Length: 38'' @ CRLF] 0 \<and>
      declared sample_scan [''Content-Length: 38'' @ CRLF] 0 \<le> sample_maxAlloc \<and>
      nat (declared sample_scan [''Content-Length: 38'' @ CRLF] 0) \<le> length sample_body"
    unfolding dl using d by (simp add: sample_maxAlloc_def sample_body_length)
  have "readFrame sample_scan sample_maxAlloc (''Content-Length: 38'' @ CRLF @ CRLF @ sample_body) =
      Frame (take (nat (declared sample_scan [''Content-Length: 38'' @ CRLF] 0)) sample_body)
            (drop (nat (declared sample_scan [''Content-Length: 38'' @ CRLF] 0)) sample_body)"
    by (rule w [THEN conjunct2, THEN conjunct2, THEN spec, THEN spec, THEN mp, OF pre])
  then have r4: "readFrame sample_scan sample_maxAlloc (''Content-Length: 38'' @ CRLF @ CRLF @ sample_body) =
      Frame sample_body []"
    unfolding dl by (simp add: sample_body_length)
  from r1 r2 r3 r4 show ?thesis by blast
qed


section \<open>Properties of the registry\<close>

subsection \<open>Routing\<close>

lemma HasSuffix_ends_with: "HasSuffix s suf \<longleftrightarrow> ends_with s suf"
proof
  assume "HasSuffix s suf"
  then have "s = take (length s - length suf) s @ suf"
    by (metis HasSuffix_def append_take_drop_id)
  then show "ends_with s suf"
    unfolding ends_with_def by blast
next
  assume "ends_with s suf"
  then show "HasSuffix s suf"
    by (auto simp: ends_with_def HasSuffix_def)
qed

lemma TrimPrefix_strip: "TrimPrefix uri ''file://'' = strip_file_scheme uri"
proof (cases "\<exists>rest. uri = ''file://'' @ rest")
  case True
  then show ?thesis
    by (auto simp: TrimPrefix_def HasPrefix_def strip_file_scheme_def)
next
  case False
  have "\<not> HasPrefix uri ''file://''"
  proof
    assume "HasPrefix uri ''file://''"
    then have "take (length ''file://'') uri = ''file://''"
      unfolding HasPrefix_def by (rule conjunct2)
    then have "uri = ''file://'' @ drop (length ''file://'') uri"
      by (metis append_take_drop_id)
    with False show False by blast
  qed
  with False show ?thesis
    by (simp add: TrimPrefix_def strip_file_scheme_def)
qed

lemma detectLanguageForLSP_policy:
  "detectLanguageForLSP path = (case language_policy path of None \<Rightarrow> [] | Some tag \<Rightarrow> tag)"
  by (auto simp: detectLanguageForLSP_def language_policy_def HasSuffix_ends_with)

lemma language_policy_tags: "language_policy path = Some tag \<Longrightarrow> tag \<noteq> []"
  by (auto simp: language_policy_def split: if_splits)

lemma extractLanguageFromParams_spec:
  "extractLanguageFromParams params =
     (case uri_of params of
        None \<Rightarrow> extractLanguageFromParams params
      | Some uri \<Rightarrow>
          (case language_policy (strip_file_scheme uri) of
             None \<Rightarrow> Inl (UnknownLanguage (strip_file_scheme uri))
           | Some tag \<Rightarrow> Inr tag))"
proof (cases "uri_of params")
  case None
  then show ?thesis by simp
next
  case (Some uri)
  then obtain ps td where p: "params = JObj ps" "map_of ps ''textDocument'' = Some (JObj td)"
    "map_of td ''uri'' = Some (JStr uri)"
    by (auto simp: uri_of_def split: json.splits option.splits)
  show ?thesis
  proof (cases "language_policy (strip_file_scheme uri)")
    case None
    with Some p show ?thesis
      by (simp add: extractLanguageFromParams_def TrimPrefix_strip detectLanguageForLSP_policy)
  next
    case (Some tag)
    with \<open>uri_of params = Some uri\<close> p language_policy_tags [OF Some] show ?thesis
      by (simp add: extractLanguageFromParams_def TrimPrefix_strip detectLanguageForLSP_policy)
  qed
qed

lemma extractLanguageFromParams_bad:
  "uri_of params = None \<Longrightarrow> \<exists>msg. extractLanguageFromParams params = Inl (BadParams msg)"
  by (auto simp: uri_of_def extractLanguageFromParams_def split: json.splits option.splits)

text \<open>
  C6. \<open>RouteRequest\<close> and \<open>RouteNotification\<close> locate \<open>params.textDocument.uri\<close>, strip the
  \<open>file://\<close> prefix and detect the language by the suffix policy. They fail with a
  bad-parameters error when the URI cannot be located, with the unknown-language error
  when no suffix matches, and with the no-engine error when no engine is registered for
  the tag, in each case leaving the registry as it is. Otherwise the call is the
  \<open>SendRequest\<close>, or the \<open>SendNotification\<close>, of the engine registered for the tag, with the
  same method and parameters; only that engine object changes, and a notification to a
  running engine whose write succeeds appends its frame to the input of that engine's
  child.
\<close>

theorem routing_by_language:
  "(uri_of params = None \<longrightarrow>
      (\<exists>msg. RouteRequest wr mw m method params = (Returns (Inl (BadParams msg)), m) \<and>
             RouteNotification wr m method params = (Some (BadParams msg), m))) \<and>
   (\<forall>uri. uri_of params = Some uri \<and> language_policy (strip_file_scheme uri) = None \<longrightarrow>
      RouteRequest wr mw m method params =
        (Returns (Inl (UnknownLanguage (strip_file_scheme uri))), m) \<and>
      RouteNotification wr m method params = (Some (UnknownLanguage (strip_file_scheme uri)), m)) \<and>
   (\<forall>uri tag. uri_of params = Some uri \<and> language_policy (strip_file_scheme uri) = Some tag \<and>
        map_of (lspServers m) tag = None \<longrightarrow>
      RouteRequest wr mw m method params = (Returns (Inl (NoEngine tag)), m) \<and>
      RouteNotification wr m method params = (Some (NoEngine tag), m)) \<and>
   (\<forall>uri tag lsp. uri_of params = Some uri \<and> language_policy (strip_file_scheme uri) = Some tag \<and>
        map_of (lspServers m) tag = Some lsp \<longrightarrow>
      RouteRequest wr mw m method params =
        (fst (SendRequest wr mw method params (engines m lsp)),
         m\<lparr>engines := (engines m)(lsp := snd (SendRequest wr mw method params (engines m lsp)))\<rparr>) \<and>
      RouteNotification wr m method params =
        (fst (SendNotification wr method params (engines m lsp)),
         m\<lparr>engines := (engines m)(lsp := snd (SendNotification wr method params (engines m lsp)))\<rparr>) \<and>
      (running (engines m lsp) \<and> wr = None \<longrightarrow>
         fst (RouteNotification wr m method params) = None \<and>
         stdin (engines (snd (RouteNotification wr m method params)) lsp) =
           stdin (engines m lsp) @
             [JObj [(''jsonrpc'', JStr ''2.0''), (''method'', JStr method), (''params'', params)]]))"
proof (intro conjI allI impI)
  assume "uri_of params = None"
  from extractLanguageFromParams_bad [OF this]
  show "\<exists>msg. RouteRequest wr mw m method params = (Returns (Inl (BadParams msg)), m) \<and>
             RouteNotification wr m method params = (Some (BadParams msg), m)"
    by (auto simp: RouteRequest_def RouteNotification_def)
next
  fix uri
  assume a: "uri_of params = Some uri \<and> language_policy (strip_file_scheme uri) = None"
  then have e: "extractLanguageFromParams params = Inl (UnknownLanguage (strip_file_scheme uri))"
    by (subst extractLanguageFromParams_spec) simp
  show "RouteRequest wr mw m method params =
        (Returns (Inl (UnknownLanguage (strip_file_scheme uri))), m)"
    by (simp add: RouteRequest_def e)
  show "RouteNotification wr m method params = (Some (UnknownLanguage (strip_file_scheme uri)), m)"
    by (simp add: RouteNotification_def e)
next
  fix uri tag
  assume a: "uri_of params = Some uri \<and> language_policy (strip_file_scheme uri) = Some tag \<and>
        map_of (lspServers m) tag = None"
  then have e: "extractLanguageFromParams params = Inr tag"
    by (subst extractLanguageFromParams_spec) simp
  show "RouteRequest wr mw m method params = (Returns (Inl (NoEngine tag)), m)"
    using a by (simp add: RouteRequest_def e MultiSendRequest_def)
  show "RouteNotification wr m method params = (Some (NoEngine tag), m)"
    using a by (simp add: RouteNotification_def e MultiSendNotification_def)
next
  fix uri tag lsp
  assume a: "uri_of params = Some uri \<and> language_policy (strip_file_scheme uri) = Some tag \<and>
        map_of (lspServers m) tag = Some lsp"
  then have e: "extractLanguageFromParams params = Inr tag"
    by (subst extractLanguageFromParams_spec) simp
  show "RouteRequest wr mw m method params =
        (fst (SendRequest wr mw method params (engines m lsp)),
         m\<lparr>engines := (engines m)(lsp := snd (SendRequest wr mw method params (engines m lsp)))\<rparr>)"
    using a by (simp add: RouteRequest_def e MultiSendRequest_def split_beta)
  show n: "RouteNotification wr m method params =
        (fst (SendNotification wr method params (engines m lsp)),
         m\<lparr>engines := (engines m)(lsp := snd (SendNotification wr method params (engines m lsp)))\<rparr>)"
    using a by (simp add: RouteNotification_def e MultiSendNotification_def split_beta)
  assume r: "running (engines m lsp) \<and> wr = None"
  then show "fst (RouteNotification wr m method params) = None"
    unfolding n by (simp add: SendNotification_def writeMessage_def)
  from r show "stdin (engines (snd (RouteNotification wr m method params)) lsp) =
           stdin (engines m lsp) @
             [JObj [(''jsonrpc'', JStr ''2.0''), (''method'', JStr method), (''params'', params)]]"
    unfolding n by (simp add: SendNotification_def writeMessage_def)
qed

lemma cpp_server_fields:
  "lspServers cpp_server = [(''cpp'', 0)]"
  "engines cpp_server 0 = NewLSPManager\<lparr>cmd := Some 0, running := True\<rparr>"
  "children cpp_server = [0 \<mapsto> [''clangd'']]"
  "nextEngine cpp_server = 1" "nextPid cpp_server = 1"
  by (simp_all add: cpp_server_def StartLSP_def NewMultiLSPManager_def Start_def NewLSPManager_def
      Let_def)

lemma two_servers_fields:
  "lspServers two_servers = [(''cpp'', 0), (''python'', 1)]"
  "engines two_servers 0 = NewLSPManager\<lparr>cmd := Some 0, running := True\<rparr>"
  "engines two_servers (Suc 0) = NewLSPManager\<lparr>cmd := Some 1, running := True\<rparr>"
  "children two_servers = [0 \<mapsto> [''clangd''], 1 \<mapsto> [''pylsp'']]"
  "nextEngine two_servers = 2" "nextPid two_servers = 2"
  by (simp_all add: two_servers_def StartLSP_def cpp_server_fields Start_def NewLSPManager_def Let_def)

lemma py_params_policy:
  "uri_of py_params = Some ''file:///x/y.py''"
  "strip_file_scheme ''file:///x/y.py'' = ''/x/y.py''"
  "language_policy ''/x/y.py'' = Some ''python''"
  by (simp_all add: py_params_def uri_of_def TrimPrefix_strip [symmetric] TrimPrefix_def HasPrefix_def
      language_policy_def HasSuffix_ends_with [symmetric] HasSuffix_def)

theorem routing_by_language_witness:
  "fst (RouteNotification None two_servers ''textDocument/didSave'' py_params) = None \<and>
   stdin (engines (snd (RouteNotification None two_servers ''textDocument/didSave'' py_params)) 1) =
     [JObj [(''jsonrpc'', JStr ''2.0''), (''method'', JStr ''textDocument/didSave''),
            (''params'', py_params)]] \<and>
   stdin (engines (snd (RouteNotification None two_servers ''textDocument/didSave'' py_params)) 0) = [] \<and>
   RouteNotification None cpp_server ''textDocument/didSave'' py_params =
     (Some (NoEngine ''python''), cpp_server) \<and>
   (\<exists>msg. RouteNotification None two_servers ''textDocument/didSave'' JNull =
      (Some (BadParams msg), two_servers))"
proof -
  let ?mw = "readMessages sample_scan sample_maxAlloc sample_unmarshal []"
  note w = routing_by_language [of py_params None ?mw _ "''textDocument/didSave''"]
  have p: "uri_of py_params = Some ''file:///x/y.py'' \<and>
      language_policy (strip_file_scheme ''file:///x/y.py'') = Some ''python'' \<and>
      map_of (lspServers two_servers) ''python'' = Some 1"
    by (simp add: py_params_policy two_servers_fields)
  have r: "running (engines two_servers 1) \<and> (None :: error option) = None"
    by (simp add: two_servers_fields)
  note w1 = w [of two_servers, THEN conjunct2, THEN conjunct2, THEN conjunct2,
      THEN spec, THEN spec, THEN spec, THEN mp, OF p]
  note w2 = w1 [THEN conjunct2, THEN conjunct2, THEN mp, OF r]
  have a: "fst (RouteNotification None two_servers ''textDocument/didSave'' py_params) = None"
    by (rule w2 [THEN conjunct1])
  have b: "stdin (engines (snd (RouteNotification None two_servers ''textDocument/didSave'' py_params)) 1) =
     [JObj [(''jsonrpc'', JStr ''2.0''), (''method'', JStr ''textDocument/didSave''),
            (''params'', py_params)]]"
    using w2 [THEN conjunct2] by (simp add: two_servers_fields NewLSPManager_def)
  have c: "stdin (engines (snd (RouteNotification None two_servers ''textDocument/didSave'' py_params)) 0) = []"
    unfolding w1 [THEN conjunct2, THEN conjunct1]
    by (simp add: two_servers_fields NewLSPManager_def)
  have q: "uri_of py_params = Some ''file:///x/y.py'' \<and>
      language_policy (strip_file_scheme ''file:///x/y.py'') = Some ''python'' \<and>
      map_of (lspServers cpp_server) ''python'' = None"
    by (simp add: py_params_policy cpp_server_fields)
  have d: "RouteNotification None cpp_server ''textDocument/didSave'' py_params =
     (Some (NoEngine ''python''), cpp_server)"
    by (rule w [of cpp_server, THEN conjunct2, THEN conjunct2, THEN conjunct1,
        THEN spec, THEN spec, THEN mp, OF q, THEN conjunct2])
  have "uri_of JNull = None"
    by (simp add: uri_of_def)
  from routing_by_language [of JNull None ?mw two_servers "''textDocument/didSave''",
      THEN conjunct1, THEN mp, OF this]
  have e: "\<exists>msg. RouteNotification None two_servers ''textDocument/didSave'' JNull =
      (Some (BadParams msg), two_servers)"
    by blast
  show ?thesis
    by (rule conjI [OF a conjI [OF b conjI [OF c conjI [OF d e]]]])
qed

subsection \<open>Starting an engine for a language\<close>

lemma registry_inv_New: "registry_inv NewMultiLSPManager"
  by (simp add: registry_inv_def NewMultiLSPManager_def)

lemma registry_invD:
  assumes "registry_inv m"
  shows "distinct (map fst (lspServers m))"
    and "map_of (lspServers m) language = Some lsp \<Longrightarrow> lsp < nextEngine m"
    and "lsp < nextEngine m \<Longrightarrow> cmd (engines m lsp) = Some pid \<Longrightarrow> pid < nextPid m"
    and "lsp < nextEngine m \<Longrightarrow> lsp' < nextEngine m \<Longrightarrow> cmd (engines m lsp) = Some pid \<Longrightarrow>
           cmd (engines m lsp') = Some pid \<Longrightarrow> lsp = lsp'"
    and "pid \<in> dom (children m) \<Longrightarrow>
           \<exists>language lsp. map_of (lspServers m) language = Some lsp \<and>
             cmd (engines m lsp) = Some pid \<and> running (engines m lsp)"
  using assms unfolding registry_inv_def by blast+

lemma registry_invI:
  assumes "distinct (map fst (lspServers m))"
    and "\<And>language lsp. map_of (lspServers m) language = Some lsp \<Longrightarrow> lsp < nextEngine m"
    and "\<And>lsp pid. lsp < nextEngine m \<Longrightarrow> cmd (engines m lsp) = Some pid \<Longrightarrow> pid < nextPid m"
    and "\<And>lsp lsp' pid. lsp < nextEngine m \<Longrightarrow> lsp' < nextEngine m \<Longrightarrow>
           cmd (engines m lsp) = Some pid \<Longrightarrow> cmd (engines m lsp') = Some pid \<Longrightarrow> lsp = lsp'"
    and "\<And>pid. pid \<in> dom (children m) \<Longrightarrow>
           \<exists>language lsp. map_of (lspServers m) language = Some lsp \<and>
             cmd (engines m lsp) = Some pid \<and> running (engines m lsp)"
  shows "registry_inv m"
  unfolding registry_inv_def using assms by blast

lemma Shutdown_fields:
  "lspServers (Shutdown old m) = lspServers m"
  "nextEngine (Shutdown old m) = nextEngine m"
  "nextPid (Shutdown old m) = nextPid m"
  "cmd (engines (Shutdown old m) lsp) = cmd (engines m lsp)"
  "running (engines (Shutdown old m) lsp) = (lsp \<noteq> old \<and> running (engines m lsp))"
  "pid \<in> dom (children (Shutdown old m)) \<longleftrightarrow>
     pid \<in> dom (children m) \<and> \<not> (running (engines m old) \<and> cmd (engines m old) = Some pid)"
  by (auto simp: Shutdown_def shutdown_def split: option.splits if_splits)

lemma Shutdown_inv:
  assumes inv: "registry_inv m" and old: "map_of (lspServers m) language = Some old"
  shows "registry_inv (Shutdown old m)"
    and "\<not> running (engines (Shutdown old m) old)"
    and "cmd (engines m old) = Some pid \<Longrightarrow> pid \<notin> dom (children (Shutdown old m))"
proof -
  note d = registry_invD [OF inv]
  have o: "old < nextEngine m" by (rule d(2) [OF old])
  show "\<not> running (engines (Shutdown old m) old)"
    by (simp add: Shutdown_fields)
  show "pid \<notin> dom (children (Shutdown old m))" if c: "cmd (engines m old) = Some pid"
  proof
    assume "pid \<in> dom (children (Shutdown old m))"
    then have alive: "pid \<in> dom (children m)"
      and nr: "\<not> (running (engines m old) \<and> cmd (engines m old) = Some pid)"
      by (simp_all add: Shutdown_fields)
    from d(5) [OF alive] obtain l e where e: "map_of (lspServers m) l = Some e"
      "cmd (engines m e) = Some pid" "running (engines m e)" by blast
    from d(4) [OF d(2) [OF e(1)] o e(2) c] have "e = old" .
    with e c nr show False by simp
  qed
  show "registry_inv (Shutdown old m)"
  proof (rule registry_invI)
    show "distinct (map fst (lspServers (Shutdown old m)))"
      using d(1) by (simp add: Shutdown_fields)
  next
    fix l e assume "map_of (lspServers (Shutdown old m)) l = Some e"
    then show "e < nextEngine (Shutdown old m)"
      using d(2) by (simp add: Shutdown_fields)
  next
    fix e p assume "e < nextEngine (Shutdown old m)" "cmd (engines (Shutdown old m) e) = Some p"
    then show "p < nextPid (Shutdown old m)"
      using d(3) by (simp add: Shutdown_fields)
  next
    fix e e' p
    assume "e < nextEngine (Shutdown old m)" "e' < nextEngine (Shutdown old m)"
      "cmd (engines (Shutdown old m) e) = Some p" "cmd (engines (Shutdown old m) e') = Some p"
    then show "e = e'"
      using d(4) by (simp add: Shutdown_fields)
  next
    fix p assume "p \<in> dom (children (Shutdown old m))"
    then have alive: "p \<in> dom (children m)"
      and nr: "\<not> (running (engines m old) \<and> cmd (engines m old) = Some p)"
      by (simp_all add: Shutdown_fields)
    from d(5) [OF alive] obtain l e where e: "map_of (lspServers m) l = Some e"
      "cmd (engines m e) = Some p" "running (engines m e)" by blast
    with nr have "e \<noteq> old" by auto
    with e show "\<exists>language lsp. map_of (lspServers (Shutdown old m)) language = Some lsp \<and>
        cmd (engines (Shutdown old m) lsp) = Some p \<and> running (engines (Shutdown old m) lsp)"
      by (auto simp: Shutdown_fields)
  qed
qed

text \<open>What \<open>StartLSP\<close> does to a registry in which the old entry has been dealt with.\<close>

lemma StartLSP_unfold:
  "StartLSP sp language serverPath ccd m =
     (let m1 = (case map_of (lspServers m) language of Some old \<Rightarrow> Shutdown old m | None \<Rightarrow> m)
      in case sp of
           Some err \<Rightarrow>
             (Some (StartFailed language (Error err)),
              m1\<lparr>engines := (engines m1)(nextEngine m1 := NewLSPManager\<lparr>cmd := None, stdin := []\<rparr>),
                 nextEngine := Suc (nextEngine m1), children := children m1,
                 nextPid := Suc (nextPid m1)\<rparr>)
         | None \<Rightarrow>
             (None,
              m1\<lparr>engines := (engines m1)(nextEngine m1 :=
                     NewLSPManager\<lparr>cmd := Some (nextPid m1), stdin := [], running := True,
                                    compileCommands := ccd\<rparr>),
                 nextEngine := Suc (nextEngine m1),
                 children := (children m1)(nextPid m1 \<mapsto> serverPath #
                    (if ccd \<noteq> [] then [''--compile-commands-dir='' @ ccd] else [])),
                 nextPid := Suc (nextPid m1),
                 lspServers := AList.update language (nextEngine m1) (lspServers m1)\<rparr>))"
  by (simp add: StartLSP_def Start_def NewLSPManager_def Let_def split: option.splits)

lemma spawn_failed_inv:
  assumes inv: "registry_inv m1"
  shows "registry_inv (m1\<lparr>engines := (engines m1)(nextEngine m1 := NewLSPManager\<lparr>cmd := None, stdin := []\<rparr>),
                 nextEngine := Suc (nextEngine m1), children := children m1,
                 nextPid := Suc (nextPid m1)\<rparr>)"
    (is "registry_inv ?m'")
proof (rule registry_invI)
  note d = registry_invD [OF inv]
  show "distinct (map fst (lspServers ?m'))" using d(1) by simp
  show "e < nextEngine ?m'" if "map_of (lspServers ?m') l = Some e" for l e
    using d(2) [of l e] that by simp
  have cmd': "cmd (engines ?m' e) = Some p \<Longrightarrow> e \<noteq> nextEngine m1 \<and> cmd (engines m1 e) = Some p" for e p
    by (auto simp: NewLSPManager_def split: if_splits)
  show "p < nextPid ?m'" if "e < nextEngine ?m'" "cmd (engines ?m' e) = Some p" for e p
    using d(3) [of e p] cmd' [OF that(2)] that(1) by auto
  show "e = e'" if "e < nextEngine ?m'" "e' < nextEngine ?m'"
    "cmd (engines ?m' e) = Some p" "cmd (engines ?m' e') = Some p" for e e' p
    using d(4) [of e e' p] cmd' [OF that(3)] cmd' [OF that(4)] that(1,2) by auto
  show "\<exists>language lsp. map_of (lspServers ?m') language = Some lsp \<and>
      cmd (engines ?m' lsp) = Some p \<and> running (engines ?m' lsp)" if "p \<in> dom (children ?m')" for p
  proof -
    from that have "p \<in> dom (children m1)" by simp
    from d(5) [OF this] obtain l e where e: "map_of (lspServers m1) l = Some e"
      "cmd (engines m1 e) = Some p" "running (engines m1 e)" by blast
    from d(2) [OF e(1)] have "e \<noteq> nextEngine m1" by simp
    with e show ?thesis by auto
  qed
qed

lemma spawned_inv:
  assumes inv: "registry_inv m1"
    and gone: "\<And>old pid. map_of (lspServers m1) language = Some old \<Longrightarrow>
        cmd (engines m1 old) = Some pid \<Longrightarrow> pid \<notin> dom (children m1)"
    and new: "cmd new = Some (nextPid m1)" "running new"
  shows "registry_inv (m1\<lparr>engines := (engines m1)(nextEngine m1 := new),
                 nextEngine := Suc (nextEngine m1),
                 children := (children m1)(nextPid m1 \<mapsto> cmdline),
                 nextPid := Suc (nextPid m1),
                 lspServers := AList.update language (nextEngine m1) (lspServers m1)\<rparr>)"
    (is "registry_inv ?m'")
proof (rule registry_invI)
  note d = registry_invD [OF inv]
  show "distinct (map fst (lspServers ?m'))"
    using d(1) by (simp add: distinct_update)
  have look: "map_of (lspServers ?m') l = (if l = language then Some (nextEngine m1)
      else map_of (lspServers m1) l)" for l
    by (simp add: update_conv')
  show "e < nextEngine ?m'" if "map_of (lspServers ?m') l = Some e" for l e
    using d(2) [of l e] that unfolding look by (auto split: if_splits)
  have cmd': "cmd (engines ?m' e) = Some p \<Longrightarrow>
      (e = nextEngine m1 \<and> p = nextPid m1) \<or> (e \<noteq> nextEngine m1 \<and> cmd (engines m1 e) = Some p)" for e p
    using new by (auto split: if_splits)
  show "p < nextPid ?m'" if "e < nextEngine ?m'" "cmd (engines ?m' e) = Some p" for e p
    using d(3) [of e p] cmd' [OF that(2)] that(1) by auto
  show "e = e'" if "e < nextEngine ?m'" "e' < nextEngine ?m'"
    "cmd (engines ?m' e) = Some p" "cmd (engines ?m' e') = Some p" for e e' p
    using d(4) [of e e' p] d(3) [of e p] d(3) [of e' p] cmd' [OF that(3)] cmd' [OF that(4)] that(1,2)
    by auto
  show "\<exists>l lsp. map_of (lspServers ?m') l = Some lsp \<and>
      cmd (engines ?m' lsp) = Some p \<and> running (engines ?m' lsp)" if "p \<in> dom (children ?m')" for p
  proof (cases "p = nextPid m1")
    case True
    with new show ?thesis
      by (intro exI [of _ language] exI [of _ "nextEngine m1"]) (simp add: update_conv')
  next
    case False
    with that have alive: "p \<in> dom (children m1)" by simp
    from d(5) [OF alive] obtain l e where e: "map_of (lspServers m1) l = Some e"
      "cmd (engines m1 e) = Some p" "running (engines m1 e)" by blast
    from d(2) [OF e(1)] have ne: "e \<noteq> nextEngine m1" by simp
    have "l \<noteq> language"
      using gone [of e p] e alive by auto
    with e ne show ?thesis
      by (intro exI [of _ l] exI [of _ e]) (simp add: update_conv')
  qed
qed

lemma entries_at_most_one:
  "distinct (map fst xs) \<Longrightarrow> length (filter (\<lambda>entry. fst entry = k) xs) \<le> 1"
proof (induction xs)
  case Nil
  then show ?case by simp
next
  case (Cons x xs)
  show ?case
  proof (cases "fst x = k")
    case True
    have "fst y \<noteq> k" if "y \<in> set xs" for y
      using Cons.prems True that by (auto simp: image_iff)
    then have "filter (\<lambda>entry. fst entry = k) xs = []"
      unfolding filter_empty_conv by blast
    with True show ?thesis by simp
  next
    case False
    with Cons show ?thesis by simp
  qed
qed

lemma entries_exactly_one:
  assumes "distinct (map fst xs)" and "map_of xs k = Some v"
  shows "length (filter (\<lambda>entry. fst entry = k) xs) = 1"
proof -
  from assms(2) have "(k, v) \<in> set xs" by (rule map_of_SomeD)
  then have "\<exists>y \<in> set xs. fst y = k"
    by force
  then have "filter (\<lambda>entry. fst entry = k) xs \<noteq> []"
    unfolding filter_empty_conv by blast
  then have "length (filter (\<lambda>entry. fst entry = k) xs) \<ge> 1"
    by (cases "filter (\<lambda>entry. fst entry = k) xs") simp_all
  with entries_at_most_one [OF assms(1), of k] show ?thesis by simp
qed

text \<open>
  C7, as the specification states it, fails when the second start does not succeed:
  \<open>StartLSP\<close> shuts the prior engine down before it starts the new child and returns the
  error of a failed start without touching the map. After a start of \<open>cpp\<close> with the
  server \<open>A\<close> and a second start whose child cannot be started, the entry of \<open>cpp\<close> is not
  replaced: it is still the first engine, which is not running, and no child process is
  alive.
\<close>

theorem failed_restart_counterexample:
  "fst (StartLSP (Some (IOError ''no such file'')) ''cpp'' ''B'' [] cpp_A) =
     Some (StartFailed ''cpp'' ''no such file'') \<and>
   lspServers cpp_A = [(''cpp'', 0)] \<and>
   running (engines cpp_A 0) \<and>
   lspServers (snd (StartLSP (Some (IOError ''no such file'')) ''cpp'' ''B'' [] cpp_A)) = [(''cpp'', 0)] \<and>
   \<not> running (engines (snd (StartLSP (Some (IOError ''no such file'')) ''cpp'' ''B'' [] cpp_A)) 0) \<and>
   children (snd (StartLSP (Some (IOError ''no such file'')) ''cpp'' ''B'' [] cpp_A)) = Map.empty"
proof -
  have f: "lspServers cpp_A = [(''cpp'', 0)]"
    "engines cpp_A 0 = NewLSPManager\<lparr>cmd := Some 0, running := True\<rparr>"
    "children cpp_A = [0 \<mapsto> [''A'']]"
    "nextEngine cpp_A = Suc 0"
    by (simp_all add: cpp_A_def StartLSP_def NewMultiLSPManager_def Start_def NewLSPManager_def Let_def)
  show ?thesis
    by (simp add: StartLSP_unfold Let_def f Shutdown_def shutdown_def)
qed

text \<open>
  C7, amended. A language has at most one entry at any instant: \<open>StartLSP\<close> keeps the
  invariant of the registry, under which every live child belongs to the running engine
  of some entry. For a language that has an entry, \<open>StartLSP\<close> first shuts the engine of
  that entry down, so that afterwards it is not running and its child process is not
  alive. When the new child starts, the entry is replaced: the language then has exactly
  one entry, a new engine that is running with the new child, started with the given
  command line, and every other live child belongs to another language. When the new
  child fails to start, the entries are as before and no child of the entry of the
  language is alive. The entries of other languages are untouched.
\<close>

theorem StartLSP_replaces:
  assumes "registry_inv m" and "StartLSP sp language serverPath ccd m = (res, m')"
  shows "registry_inv m' \<and>
         length (filter (\<lambda>entry. fst entry = language) (lspServers m')) \<le> 1 \<and>
         (\<forall>old. map_of (lspServers m) language = Some old \<longrightarrow>
            \<not> running (engines m' old) \<and>
            (\<forall>pid. cmd (engines m old) = Some pid \<longrightarrow> pid \<notin> dom (children m'))) \<and>
         (res = None \<longrightarrow>
            sp = None \<and>
            length (filter (\<lambda>entry. fst entry = language) (lspServers m')) = 1 \<and>
            map_of (lspServers m') language = Some (nextEngine m) \<and>
            (\<forall>l old. map_of (lspServers m) l = Some old \<longrightarrow> old \<noteq> nextEngine m) \<and>
            running (engines m' (nextEngine m)) \<and>
            cmd (engines m' (nextEngine m)) = Some (nextPid m) \<and>
            children m' (nextPid m) =
              Some (serverPath # (if ccd \<noteq> [] then [''--compile-commands-dir='' @ ccd] else [])) \<and>
            (\<forall>pid. pid \<in> dom (children m') \<longrightarrow>
               pid = nextPid m \<or>
               (\<exists>l lsp. l \<noteq> language \<and> map_of (lspServers m') l = Some lsp \<and>
                  cmd (engines m' lsp) = Some pid \<and> running (engines m' lsp)))) \<and>
         (res \<noteq> None \<longrightarrow>
            sp \<noteq> None \<and> lspServers m' = lspServers m \<and>
            (\<forall>lsp pid. map_of (lspServers m') language = Some lsp \<and>
                cmd (engines m' lsp) = Some pid \<longrightarrow> pid \<notin> dom (children m'))) \<and>
         (\<forall>l. l \<noteq> language \<longrightarrow> map_of (lspServers m') l = map_of (lspServers m) l)"
proof -
  note d = registry_invD [OF assms(1)]
  define m1 where "m1 = (case map_of (lspServers m) language of Some old \<Rightarrow> Shutdown old m | None \<Rightarrow> m)"
  have m1_same: "lspServers m1 = lspServers m" "nextEngine m1 = nextEngine m" "nextPid m1 = nextPid m"
    "\<And>lsp. cmd (engines m1 lsp) = cmd (engines m lsp)"
    by (simp_all add: m1_def Shutdown_fields split: option.splits)
  have inv1: "registry_inv m1"
    using assms(1) Shutdown_inv(1) [OF assms(1)] by (auto simp: m1_def split: option.splits)
  have off: "\<not> running (engines m1 old)" "cmd (engines m old) = Some pid \<Longrightarrow> pid \<notin> dom (children m1)"
    if "map_of (lspServers m) language = Some old" for old pid
    using Shutdown_inv(2,3) [OF assms(1) that] that by (simp_all add: m1_def)
  note d1 = registry_invD [OF inv1]
  have old_lt: "old < nextEngine m1" if "map_of (lspServers m) language = Some old" for old
    using d(2) [OF that] by (simp add: m1_same)
  show ?thesis
  proof (cases sp)
    case (Some err)
    let ?m' = "m1\<lparr>engines := (engines m1)(nextEngine m1 := NewLSPManager\<lparr>cmd := None, stdin := []\<rparr>),
                 nextEngine := Suc (nextEngine m1), children := children m1,
                 nextPid := Suc (nextPid m1)\<rparr>"
    from assms(2) Some have r: "res = Some (StartFailed language (Error err))" "m' = ?m'"
      by (simp_all add: StartLSP_unfold m1_def [symmetric] Let_def)
    have inv': "registry_inv m'"
      unfolding r by (rule spawn_failed_inv [OF inv1])
    have one: "length (filter (\<lambda>entry. fst entry = language) (lspServers m')) \<le> 1"
      by (rule entries_at_most_one [OF registry_invD(1) [OF inv']])
    have old: "\<not> running (engines m' old) \<and>
        (\<forall>pid. cmd (engines m old) = Some pid \<longrightarrow> pid \<notin> dom (children m'))"
      if o: "map_of (lspServers m) language = Some old" for old
      using off [OF o] old_lt [OF o] by (simp add: r)
    have c3: "\<forall>old. map_of (lspServers m) language = Some old \<longrightarrow>
            \<not> running (engines m' old) \<and>
            (\<forall>pid. cmd (engines m old) = Some pid \<longrightarrow> pid \<notin> dom (children m'))"
      using old by blast
    have c4: "res = None \<longrightarrow>
            sp = None \<and>
            length (filter (\<lambda>entry. fst entry = language) (lspServers m')) = 1 \<and>
            map_of (lspServers m') language = Some (nextEngine m) \<and>
            (\<forall>l old. map_of (lspServers m) l = Some old \<longrightarrow> old \<noteq> nextEngine m) \<and>
            running (engines m' (nextEngine m)) \<and>
            cmd (engines m' (nextEngine m)) = Some (nextPid m) \<and>
            children m' (nextPid m) =
              Some (serverPath # (if ccd \<noteq> [] then [''--compile-commands-dir='' @ ccd] else [])) \<and>
            (\<forall>pid. pid \<in> dom (children m') \<longrightarrow>
               pid = nextPid m \<or>
               (\<exists>l lsp. l \<noteq> language \<and> map_of (lspServers m') l = Some lsp \<and>
                  cmd (engines m' lsp) = Some pid \<and> running (engines m' lsp)))"
      by (simp add: r(1))
    have same: "lspServers m' = lspServers m"
      by (simp add: r(2) m1_same)
    have dead: "\<forall>lsp pid. map_of (lspServers m') language = Some lsp \<and>
                cmd (engines m' lsp) = Some pid \<longrightarrow> pid \<notin> dom (children m')"
    proof (intro allI impI)
      fix lsp pid
      assume a: "map_of (lspServers m') language = Some lsp \<and> cmd (engines m' lsp) = Some pid"
      then have o: "map_of (lspServers m) language = Some lsp"
        by (simp add: same)
      from old_lt [OF o] a have "cmd (engines m lsp) = Some pid"
        by (simp add: r(2) m1_same)
      with old [OF o] show "pid \<notin> dom (children m')" by blast
    qed
    have c5: "res \<noteq> None \<longrightarrow>
            sp \<noteq> None \<and> lspServers m' = lspServers m \<and>
            (\<forall>lsp pid. map_of (lspServers m') language = Some lsp \<and>
                cmd (engines m' lsp) = Some pid \<longrightarrow> pid \<notin> dom (children m'))"
      using Some same dead by blast
    have c6: "\<forall>l. l \<noteq> language \<longrightarrow> map_of (lspServers m') l = map_of (lspServers m) l"
      by (simp add: same)
    show ?thesis
      by (rule conjI [OF inv' conjI [OF one conjI [OF c3 conjI [OF c4 conjI [OF c5 c6]]]]])
  next
    case None
    let ?new = "NewLSPManager\<lparr>cmd := Some (nextPid m1), stdin := [], running := True,
                                    compileCommands := ccd\<rparr>"
    let ?line = "serverPath # (if ccd \<noteq> [] then [''--compile-commands-dir='' @ ccd] else [])"
    let ?m' = "m1\<lparr>engines := (engines m1)(nextEngine m1 := ?new),
                 nextEngine := Suc (nextEngine m1),
                 children := (children m1)(nextPid m1 \<mapsto> ?line),
                 nextPid := Suc (nextPid m1),
                 lspServers := AList.update language (nextEngine m1) (lspServers m1)\<rparr>"
    from assms(2) None have r: "res = None" "m' = ?m'"
      by (simp_all add: StartLSP_unfold m1_def [symmetric] Let_def)
    have gone: "pid \<notin> dom (children m1)"
      if "map_of (lspServers m1) language = Some old" "cmd (engines m1 old) = Some pid" for old pid
      using off(2) [of old pid] that by (simp add: m1_same)
    have inv': "registry_inv m'"
      unfolding r by (rule spawned_inv [OF inv1 gone]) simp_all
    have look: "map_of (lspServers m') l = (if l = language then Some (nextEngine m)
        else map_of (lspServers m) l)" for l
      by (simp add: r update_conv' m1_same)
    have one: "length (filter (\<lambda>entry. fst entry = language) (lspServers m')) = 1"
      by (rule entries_exactly_one [OF registry_invD(1) [OF inv']]) (simp add: look)
    have old: "\<not> running (engines m' old) \<and>
        (\<forall>pid. cmd (engines m old) = Some pid \<longrightarrow> pid \<notin> dom (children m'))"
      if o: "map_of (lspServers m) language = Some old" for old
    proof -
      have "cmd (engines m old) = Some pid \<Longrightarrow> pid \<noteq> nextPid m1" for pid
        using d(3) [OF d(2) [OF o], of pid] by (auto simp: m1_same)
      with off [OF o] old_lt [OF o] show ?thesis
        by (auto simp: r)
    qed
    have fresh: "\<forall>l old. map_of (lspServers m) l = Some old \<longrightarrow> old \<noteq> nextEngine m"
      using d(2) by blast
    have new: "running (engines m' (nextEngine m))" "cmd (engines m' (nextEngine m)) = Some (nextPid m)"
      "children m' (nextPid m) = Some ?line"
      by (simp_all add: r m1_same)
    have others: "pid = nextPid m \<or>
        (\<exists>l lsp. l \<noteq> language \<and> map_of (lspServers m') l = Some lsp \<and>
           cmd (engines m' lsp) = Some pid \<and> running (engines m' lsp))"
      if alive: "pid \<in> dom (children m')" for pid
    proof (cases "pid = nextPid m")
      case True
      then show ?thesis by simp
    next
      case False
      from registry_invD(5) [OF inv' alive] obtain l lsp where
        e: "map_of (lspServers m') l = Some lsp" "cmd (engines m' lsp) = Some pid"
           "running (engines m' lsp)" by blast
      have "l \<noteq> language"
      proof
        assume "l = language"
        with e(1) have "lsp = nextEngine m" by (simp add: look)
        with e(2) new(2) False show False by simp
      qed
      with e show ?thesis by blast
    qed
    have c2: "length (filter (\<lambda>entry. fst entry = language) (lspServers m')) \<le> 1"
      using one by simp
    have c3: "\<forall>old. map_of (lspServers m) language = Some old \<longrightarrow>
            \<not> running (engines m' old) \<and>
            (\<forall>pid. cmd (engines m old) = Some pid \<longrightarrow> pid \<notin> dom (children m'))"
      using old by blast
    have l0: "map_of (lspServers m') language = Some (nextEngine m)"
      by (simp add: look)
    have o': "\<forall>pid. pid \<in> dom (children m') \<longrightarrow>
               pid = nextPid m \<or>
               (\<exists>l lsp. l \<noteq> language \<and> map_of (lspServers m') l = Some lsp \<and>
                  cmd (engines m' lsp) = Some pid \<and> running (engines m' lsp))"
      using others by blast
    have c4: "res = None \<longrightarrow>
            sp = None \<and>
            length (filter (\<lambda>entry. fst entry = language) (lspServers m')) = 1 \<and>
            map_of (lspServers m') language = Some (nextEngine m) \<and>
            (\<forall>l old. map_of (lspServers m) l = Some old \<longrightarrow> old \<noteq> nextEngine m) \<and>
            running (engines m' (nextEngine m)) \<and>
            cmd (engines m' (nextEngine m)) = Some (nextPid m) \<and>
            children m' (nextPid m) =
              Some (serverPath # (if ccd \<noteq> [] then [''--compile-commands-dir='' @ ccd] else [])) \<and>
            (\<forall>pid. pid \<in> dom (children m') \<longrightarrow>
               pid = nextPid m \<or>
               (\<exists>l lsp. l \<noteq> language \<and> map_of (lspServers m') l = Some lsp \<and>
                  cmd (engines m' lsp) = Some pid \<and> running (engines m' lsp)))"
      by (rule impI) (rule conjI [OF None conjI [OF one conjI [OF l0 conjI [OF fresh
          conjI [OF new(1) conjI [OF new(2) conjI [OF new(3) o']]]]]]])
    have c5: "res \<noteq> None \<longrightarrow>
            sp \<noteq> None \<and> lspServers m' = lspServers m \<and>
            (\<forall>lsp pid. map_of (lspServers m') language = Some lsp \<and>
                cmd (engines m' lsp) = Some pid \<longrightarrow> pid \<notin> dom (children m'))"
      by (simp add: r(1))
    have c6: "\<forall>l. l \<noteq> language \<longrightarrow> map_of (lspServers m') l = map_of (lspServers m) l"
      by (simp add: look)
    show ?thesis
      by (rule conjI [OF inv' conjI [OF c2 conjI [OF c3 conjI [OF c4 conjI [OF c5 c6]]]]])
  qed
qed

theorem StartLSP_replaces_witness:
  "fst (StartLSP None ''cpp'' ''B'' [] cpp_A) = None \<and>
   map_of (lspServers cpp_A) ''cpp'' = Some 0 \<and>
   cmd (engines cpp_A 0) = Some 0 \<and>
   children cpp_A 0 = Some [''A''] \<and>
   length (filter (\<lambda>entry. fst entry = ''cpp'') (lspServers (snd (StartLSP None ''cpp'' ''B'' [] cpp_A)))) = 1 \<and>
   map_of (lspServers (snd (StartLSP None ''cpp'' ''B'' [] cpp_A))) ''cpp'' = Some 1 \<and>
   \<not> running (engines (snd (StartLSP None ''cpp'' ''B'' [] cpp_A)) 0) \<and>
   0 \<notin> dom (children (snd (StartLSP None ''cpp'' ''B'' [] cpp_A))) \<and>
   children (snd (StartLSP None ''cpp'' ''B'' [] cpp_A)) 1 = Some [''B'']"
proof -
  have f: "lspServers cpp_A = [(''cpp'', 0)]"
    "cmd (engines cpp_A 0) = Some 0" "children cpp_A 0 = Some [''A'']"
    "nextEngine cpp_A = 1" "nextPid cpp_A = 1"
    by (simp_all add: cpp_A_def StartLSP_def NewMultiLSPManager_def Start_def NewLSPManager_def Let_def)
  have inv: "registry_inv cpp_A"
    using StartLSP_replaces [OF registry_inv_New, of None "''cpp''" "''A''" "[]"
        "fst (StartLSP None ''cpp'' ''A'' [] NewMultiLSPManager)" cpp_A]
    by (simp add: cpp_A_def)
  have ok: "fst (StartLSP None ''cpp'' ''B'' [] cpp_A) = None"
    by (simp add: StartLSP_unfold Let_def)
  obtain m' where s: "StartLSP None ''cpp'' ''B'' [] cpp_A = (None, m')"
    using ok by (cases "StartLSP None ''cpp'' ''B'' [] cpp_A") simp
  have old: "map_of (lspServers cpp_A) ''cpp'' = Some 0"
    by (simp add: f)
  note w = StartLSP_replaces [OF inv s]
  note w3 = w [THEN conjunct2, THEN conjunct2, THEN conjunct1, THEN spec, THEN mp, OF old]
  have a1: "\<not> running (engines m' 0)"
    by (rule w3 [THEN conjunct1])
  have a2: "0 \<notin> dom (children m')"
    by (rule w3 [THEN conjunct2, THEN spec, THEN mp, OF f(2)])
  note w4 = w [THEN conjunct2, THEN conjunct2, THEN conjunct2, THEN conjunct1, THEN mp, OF refl]
  have b1: "length (filter (\<lambda>entry. fst entry = ''cpp'') (lspServers m')) = 1"
    by (rule w4 [THEN conjunct2, THEN conjunct1])
  have b2: "map_of (lspServers m') ''cpp'' = Some 1"
    using w4 [THEN conjunct2, THEN conjunct2, THEN conjunct1] by (simp only: f(4))
  have b3: "children m' 1 = Some [''B'']"
    using w4 [THEN conjunct2, THEN conjunct2, THEN conjunct2, THEN conjunct2, THEN conjunct2,
              THEN conjunct2, THEN conjunct1]
    by (simp only: f(5)) simp
  have m': "snd (StartLSP None ''cpp'' ''B'' [] cpp_A) = m'"
    by (simp add: s)
  show ?thesis
    unfolding m'
    by (rule conjI [OF ok conjI [OF old conjI [OF f(2) conjI [OF f(3) conjI [OF b1 conjI [OF b2
        conjI [OF a1 conjI [OF a2 b3]]]]]]]])
qed

end
